theory Spec2Isabelle
  imports Complex_Main "HOL-Library.DAList"
begin

section \<open>Return metrics: a chainable accumulator of column statistics\<close>

text \<open>
  The development embeds \<^verbatim>\<open>src/return_metrics/return_metrics.py\<close>, the class
  \<^verbatim>\<open>ReturnMetrics\<close>. The class is a thin layer over the pandas table engine, so the
  embedding has two layers: the pandas primitives that the class calls (reductions over a
  column, cumulative scans, slicing, column assignment), each written as a HOL function
  after the behaviour of the library, and the methods of the class itself, each translated
  line by line on top of them.

  Conventions of the embedding:
  \<^item> a float64 cell is the real number it denotes, or one of the special values that pandas
    produces from a division by zero or from a reduction with too few values (\<open>NA\<close>,
    \<open>PosInf\<close>, \<open>NegInf\<close>); the cells of the input table are finite numbers;
  \<^item> the arithmetic of the drawdown computation (lines 138 to 140: one addition, the
    running product, one subtraction and one division per cell) rounds every result to the
    nearest float64, ties to even, since the drawdown dates depend on which cells are equal;
    the exponent range is unbounded (no overflow to infinity, no subnormal numbers) and
    zero has no sign;
  \<^item> the reductions of the engine over a column (mean, standard deviation, skewness,
    kurtosis, quantile) and the scalings of lines 96 to 124 are in exact arithmetic: the
    order in which the engine sums is not part of its interface;
  \<^item> the input table has unique column names (the asset identifiers) and a time index with
    unique labels, one per row: integers (by default \<open>0..n-1\<close>), or labels of another
    type (dates), each represented by its position in the index;
  \<^item> the result table has one row per asset, in the order of the input table's columns,
    and unique column names;
  \<^item> the annualization factor is a natural number (a count of periods per year);
  \<^item> every result table lives in a heap of table objects, addressed by reference, so that
    copying and in-place column assignment are distinguishable.
\<close>

subsection \<open>Cells\<close>

datatype cell = Num real | NA | PosInf | NegInf | Date int

text \<open>
  Arithmetic between a column of statistics and a scalar, as numpy does it on float64.
  Dates never reach arithmetic; the last equation of each function covers \<open>NA\<close>.
\<close>

fun cell_times :: "cell \<Rightarrow> real \<Rightarrow> cell" where
  "cell_times (Num x) k = Num (x * k)"
| "cell_times PosInf k = (if 0 < k then PosInf else if k < 0 then NegInf else NA)"
| "cell_times NegInf k = (if 0 < k then NegInf else if k < 0 then PosInf else NA)"
| "cell_times c k = NA"

fun cell_minus :: "cell \<Rightarrow> real \<Rightarrow> cell" where
  "cell_minus (Num x) y = Num (x - y)"
| "cell_minus PosInf y = PosInf"
| "cell_minus NegInf y = NegInf"
| "cell_minus c y = NA"

text \<open>Float division: a zero divisor gives an infinity, or \<open>NA\<close> for \<open>0 / 0\<close>.\<close>

definition float_divide :: "real \<Rightarrow> real \<Rightarrow> cell" where
  "float_divide x y =
     (if y \<noteq> 0 then Num (x / y)
      else if 0 < x then PosInf else if x < 0 then NegInf else NA)"

fun cell_divide :: "cell \<Rightarrow> cell \<Rightarrow> cell" where
  "cell_divide (Num x) (Num y) = float_divide x y"
| "cell_divide c d = NA"

text \<open>The order of float64 on the values that are not \<open>NA\<close>.\<close>

fun cell_le :: "cell \<Rightarrow> cell \<Rightarrow> bool" where
  "cell_le (Num x) (Num y) = (x \<le> y)"
| "cell_le NegInf (Num y) = True"
| "cell_le NegInf NegInf = True"
| "cell_le NegInf PosInf = True"
| "cell_le (Num x) PosInf = True"
| "cell_le PosInf PosInf = True"
| "cell_le c d = False"

text \<open>The cells of a float column: everything but a date.\<close>

fun is_float :: "cell \<Rightarrow> bool" where
  "is_float (Date d) = False"
| "is_float c = True"

subsection \<open>Rounding to float64\<close>

text \<open>
  The integer nearest to a real number, the even one of two that are equally near; the
  binary exponent \<open>e\<close> of a positive real \<open>x\<close>, with \<open>2 ^ e \<le> x < 2 ^ (e + 1)\<close>, found by
  halving or doubling; and the float64 nearest to a real number: a multiple of
  \<open>2 ^ (e - 52)\<close>, which leaves 53 binary digits.
\<close>

definition round_even :: "real \<Rightarrow> int" where
  "round_even y =
     (let f = \<lfloor>y\<rfloor>; d = y - of_int f
      in if d < 1 / 2 then f else if 1 / 2 < d then f + 1 else if even f then f else f + 1)"

function bin_up :: "real \<Rightarrow> int" where
  "bin_up x = (if 2 \<le> x then bin_up (x / 2) + 1 else 0)"
  by pat_completeness auto
termination
proof (relation "measure (\<lambda>x. nat \<lfloor>x\<rfloor>)")
  show "wf (measure (\<lambda>x::real. nat \<lfloor>x\<rfloor>))" by simp
next
  fix x :: real
  assume "2 \<le> x"
  then have "x / 2 \<le> x - 1" by simp
  then have "\<lfloor>x / 2\<rfloor> \<le> \<lfloor>x - 1\<rfloor>" by (rule floor_mono)
  moreover have "1 \<le> \<lfloor>x - 1\<rfloor>" using \<open>2 \<le> x\<close> by (simp add: le_floor_iff)
  ultimately show "(x / 2, x) \<in> measure (\<lambda>x. nat \<lfloor>x\<rfloor>)"
    by simp
qed

function bin_down :: "real \<Rightarrow> int" where
  "bin_down x = (if 0 < x \<and> x < 1 then bin_down (x * 2) - 1 else 0)"
  by pat_completeness auto
termination
proof (relation "measure (\<lambda>x. nat \<lceil>1 / x\<rceil>)")
  show "wf (measure (\<lambda>x::real. nat \<lceil>1 / x\<rceil>))" by simp
next
  fix x :: real
  assume a: "0 < x \<and> x < 1"
  then have y: "1 < 1 / x" by simp
  have c: "1 / x \<le> real_of_int \<lceil>1 / x\<rceil>" by (rule le_of_int_ceiling)
  have "real_of_int \<lceil>1 / (x * 2)\<rceil> < real_of_int \<lceil>1 / x\<rceil>"
  proof (cases "2 \<le> 1 / x")
    case True
    have "real_of_int \<lceil>1 / (x * 2)\<rceil> < 1 / (x * 2) + 1"
      using ceiling_correct [of "1 / (x * 2)"] by linarith
    also have "1 / (x * 2) + 1 \<le> 1 / x" using True a by (simp add: field_simps)
    finally show ?thesis using c by linarith
  next
    case False
    then have "1 / (x * 2) \<le> 1" using a by (simp add: field_simps)
    then have "\<lceil>1 / (x * 2)\<rceil> \<le> 1" by (simp add: ceiling_le_iff)
    then have "real_of_int \<lceil>1 / (x * 2)\<rceil> \<le> 1" by linarith
    with y c show ?thesis by linarith
  qed
  then have "\<lceil>1 / (x * 2)\<rceil> < \<lceil>1 / x\<rceil>" by linarith
  moreover have "0 < \<lceil>1 / x\<rceil>" using y c by linarith
  ultimately show "(x * 2, x) \<in> measure (\<lambda>x. nat \<lceil>1 / x\<rceil>)"
    by (simp add: zless_nat_conj)
qed

definition binade :: "real \<Rightarrow> int" where
  "binade x = (if 1 \<le> x then bin_up x else bin_down x)"

definition f64 :: "real \<Rightarrow> real" where
  "f64 x =
     (if x = 0 then 0
      else let u = 2 powi (binade \<bar>x\<bar> - 52) in of_int (round_even (x / u)) * u)"

text \<open>The rounding of a cell that an arithmetic operation has produced.\<close>

fun round_cell :: "cell \<Rightarrow> cell" where
  "round_cell (Num x) = Num (f64 x)"
| "round_cell c = c"

subsection \<open>Reductions of pandas over one column\<close>

text \<open>\<^verbatim>\<open>Series.mean()\<close>: the average, \<open>NA\<close> on an empty column.\<close>

definition pd_mean :: "real list \<Rightarrow> cell" where
  "pd_mean xs = (if xs = [] then NA else Num (sum_list xs / real (length xs)))"

text \<open>\<^verbatim>\<open>Series.std()\<close>: the sample standard deviation (one degree of freedom removed),
  \<open>NA\<close> with fewer than two values.\<close>

definition central_moment_sum :: "nat \<Rightarrow> real list \<Rightarrow> real" where
  "central_moment_sum p xs =
     (let m = sum_list xs / real (length xs) in sum_list (map (\<lambda>x. (x - m) ^ p) xs))"

definition pd_std :: "real list \<Rightarrow> cell" where
  "pd_std xs =
     (if length xs < 2 then NA
      else Num (sqrt (central_moment_sum 2 xs / (real (length xs) - 1))))"

text \<open>\<^verbatim>\<open>Series.skew()\<close>: the bias-corrected sample skewness; \<open>NA\<close> with fewer than three
  values, zero on a constant column.\<close>

definition pd_skew :: "real list \<Rightarrow> cell" where
  "pd_skew xs =
     (let n = real (length xs); m2 = central_moment_sum 2 xs; m3 = central_moment_sum 3 xs
      in if length xs < 3 then NA
         else if m2 = 0 then Num 0
         else Num ((n * sqrt (n - 1) / (n - 2)) * (m3 / (m2 * sqrt m2))))"

text \<open>\<^verbatim>\<open>Series.kurtosis()\<close>: the bias-corrected sample excess kurtosis; \<open>NA\<close> with fewer
  than four values, zero on a constant column.\<close>

definition pd_kurtosis :: "real list \<Rightarrow> cell" where
  "pd_kurtosis xs =
     (let n = real (length xs); m2 = central_moment_sum 2 xs; m4 = central_moment_sum 4 xs;
          adj = 3 * (n - 1) ^ 2 / ((n - 2) * (n - 3));
          numerator = n * (n + 1) * (n - 1) * m4;
          denominator = (n - 2) * (n - 3) * m2 ^ 2
      in if length xs < 4 then NA
         else if denominator = 0 then Num 0
         else Num (numerator / denominator - adj))"

text \<open>\<^verbatim>\<open>Series.quantile(q)\<close> with the default linear interpolation between the two
  order statistics around the position \<open>q * (n - 1)\<close>; \<open>NA\<close> on an empty column. The
  caller checks that \<open>q\<close> lies in \<open>[0, 1]\<close>.\<close>

definition pd_quantile :: "real \<Rightarrow> real list \<Rightarrow> cell" where
  "pd_quantile q xs =
     (if xs = [] then NA
      else let s = sort xs; pos = q * (real (length xs) - 1);
               lo = nat \<lfloor>pos\<rfloor>; hi = min (Suc lo) (length xs - 1)
           in Num (s ! lo + (pos - real lo) * (s ! hi - s ! lo)))"

subsection \<open>Cumulative scans and index reductions\<close>

text \<open>\<^verbatim>\<open>cumprod()\<close> and \<^verbatim>\<open>cummax()\<close>: the running product, each product rounded, and
  the running maximum.\<close>

fun cumprod_from :: "real \<Rightarrow> real list \<Rightarrow> real list" where
  "cumprod_from a [] = []"
| "cumprod_from a (x # xs) = f64 (a * x) # cumprod_from (f64 (a * x)) xs"

fun cumprod :: "real list \<Rightarrow> real list" where
  "cumprod [] = []"
| "cumprod (x # xs) = x # cumprod_from x xs"

fun cummax_from :: "real \<Rightarrow> real list \<Rightarrow> real list" where
  "cummax_from m [] = []"
| "cummax_from m (x # xs) = max m x # cummax_from (max m x) xs"

fun cummax :: "real list \<Rightarrow> real list" where
  "cummax [] = []"
| "cummax (x # xs) = x # cummax_from x xs"

text \<open>\<^verbatim>\<open>min()\<close> of a float column skips \<open>NA\<close>; it is \<open>NA\<close> when nothing is left.\<close>

fun pd_min :: "cell list \<Rightarrow> cell" where
  "pd_min [] = NA"
| "pd_min (c # cs) =
     (let m = pd_min cs
      in if c = NA then m else if m = NA then c else if cell_le c m then c else m)"

text \<open>
  \<^verbatim>\<open>idxmin()\<close> and \<^verbatim>\<open>idxmax()\<close>: the label of the first occurrence of the minimum
  (maximum), \<open>NA\<close> cells skipped. On an empty or all-\<open>NA\<close> column the call, or the slice
  that takes its result, raises; that is the value \<open>None\<close> here.
\<close>

fun idxmin :: "cell list \<Rightarrow> nat option" where
  "idxmin [] = None"
| "idxmin (c # cs) =
     (case idxmin cs of
        None \<Rightarrow> if c = NA then None else Some 0
      | Some j \<Rightarrow> if c \<noteq> NA \<and> cell_le c (cs ! j) then Some 0 else Some (Suc j))"

fun idxmax :: "real list \<Rightarrow> nat option" where
  "idxmax [] = None"
| "idxmax (x # xs) =
     (case idxmax xs of
        None \<Rightarrow> Some 0
      | Some j \<Rightarrow> if xs ! j \<le> x then Some 0 else Some (Suc j))"

subsection \<open>The input table and the drawdown of one column\<close>

text \<open>
  The time index of the input table. A label of an integer index is its integer; a label of
  another index (dates) is represented by its position. The drawdown dates are labels.
  The index decides what the slices \<^verbatim>\<open>s[:d]\<close> and \<^verbatim>\<open>s[d:]\<close> of a column are:
  \<^item> on an integer index an integer bound is a position, whatever the labels are, as in
    a Python list: the end \<open>d\<close> is excluded, a bound beyond the length is the length, a
    negative bound counts from the end;
  \<^item> on an index of labels the bound is a label, and the row of the label is included at
    both ends.
  \<open>slice_stop\<close> is the number of rows of \<^verbatim>\<open>s[:d]\<close> and \<open>slice_start\<close> the position of the
  first row of \<^verbatim>\<open>s[d:]\<close>, for a column of \<open>n\<close> rows and the label \<open>d\<close> of the row at position
  \<open>t\<close>.
\<close>

datatype index = IntegerIndex "int list" | LabelIndex

definition default_index :: "nat \<Rightarrow> index" where
  "default_index n = IntegerIndex (map int [0..<n])"

record data_frame =
  time_index :: index
  series :: "(string \<times> real list) list"

fun label :: "index \<Rightarrow> nat \<Rightarrow> int" where
  "label (IntegerIndex ls) i = ls ! i"
| "label LabelIndex i = int i"

definition slice_bound :: "nat \<Rightarrow> int \<Rightarrow> nat" where
  "slice_bound n k = (if k < 0 then nat (int n + k) else min n (nat k))"

fun slice_stop :: "index \<Rightarrow> nat \<Rightarrow> nat \<Rightarrow> nat" where
  "slice_stop (IntegerIndex ls) n t = slice_bound n (ls ! t)"
| "slice_stop LabelIndex n t = Suc t"

fun slice_start :: "index \<Rightarrow> nat \<Rightarrow> nat \<Rightarrow> nat" where
  "slice_start (IntegerIndex ls) n t = slice_bound n (ls ! t)"
| "slice_start LabelIndex n t = t"

datatype error =
    NotImplementedError string
  | AttributeError string
  | ValueError
  | ZeroDivisionError

text \<open>Lines 138 to 140 of the source, for one column \<open>rs\<close> of returns, in float64.\<close>

definition cumulative :: "real list \<Rightarrow> real list" where
  "cumulative rs = cumprod (map (\<lambda>r. f64 (1 + r)) rs)"

definition peak :: "real list \<Rightarrow> real list" where
  "peak rs = cummax (cumulative rs)"

definition drawdown :: "real list \<Rightarrow> cell list" where
  "drawdown rs =
     map2 (\<lambda>c p. round_cell (float_divide (f64 (c - p)) p)) (cumulative rs) (peak rs)"

text \<open>
  The body of the loop of lines 148 to 160, for one column; \<open>t\<close> and \<open>p\<close> are the positions
  of the rows whose labels are the trough date and the peak date. The trough is the first
  row of the minimal drawdown, the peak the first row of the maximal wealth in the slice
  that ends at the trough date, the recovery the first row of the slice that starts at the
  trough date at which the wealth is at least the running peak read at the peak date, if
  there is one.
\<close>

definition drawdown_dates :: "index \<Rightarrow> real list \<Rightarrow> error + (int \<times> int \<times> int option)" where
  "drawdown_dates idx rs =
     (case idxmin (drawdown rs) of
        None \<Rightarrow> Inl ValueError
      | Some t \<Rightarrow>
          (case idxmax (take (slice_stop idx (length rs) t) (cumulative rs)) of
             None \<Rightarrow> Inl ValueError
           | Some p \<Rightarrow>
               Inr (label idx p, label idx t,
                    map_option (label idx)
                      (List.find (\<lambda>i. peak rs ! p \<le> cumulative rs ! i)
                         [slice_start idx (length rs) t..<length rs]))))"

fun recovery_cell :: "int option \<Rightarrow> cell" where
  "recovery_cell None = NA"
| "recovery_cell (Some d) = Date d"

text \<open>The loop over the columns; the first column that raises ends the call.\<close>

fun dates_loop :: "index \<Rightarrow> real list list \<Rightarrow> error + (cell list \<times> cell list \<times> cell list)" where
  "dates_loop idx [] = Inr ([], [], [])"
| "dates_loop idx (rs # rest) =
     (case drawdown_dates idx rs of
        Inl e \<Rightarrow> Inl e
      | Inr (p, t, r) \<Rightarrow>
          (case dates_loop idx rest of
             Inl e \<Rightarrow> Inl e
           | Inr (ps, ts, rcs) \<Rightarrow> Inr (Date p # ps, Date t # ts, recovery_cell r # rcs)))"

subsection \<open>Result tables, the heap and the accumulator\<close>

text \<open>
  A result table maps a column name to one cell per asset; the columns keep the order in
  which they were first written. \<open>DAList.update\<close> is column assignment: it replaces the
  cells of a column that exists, at its place, and appends a column that does not.
\<close>

type_synonym frame = "(string, cell list) alist"

type_synonym heap = "frame list"

definition column_names :: "frame \<Rightarrow> string list" where
  "column_names t = map fst (DAList.impl_of t)"

record return_metrics =
  data :: data_frame
  annualization :: nat
  results :: nat

text \<open>\<^verbatim>\<open>copy(deep=True)\<close> allocates a new table with the same content.\<close>

definition copy_deep :: "nat \<Rightarrow> heap \<Rightarrow> nat \<times> heap" where
  "copy_deep r h = (length h, h @ [h ! r])"

text \<open>\<^verbatim>\<open>table[name] = series\<close> writes into the table object itself.\<close>

definition setitem :: "nat \<Rightarrow> string \<times> cell list \<Rightarrow> heap \<Rightarrow> heap" where
  "setitem r col h = h[r := DAList.update (fst col) (snd col) (h ! r)]"

text \<open>The constructor, lines 30 to 42: a seed table is copied, no seed gives an empty table.
  The attribute \<^verbatim>\<open>_index_type\<close> only fixes the element type of the date columns and has
  no counterpart here.\<close>

definition init :: "data_frame \<Rightarrow> nat \<Rightarrow> nat option \<Rightarrow> heap \<Rightarrow> return_metrics \<times> heap" where
  "init d k res h =
     (case res of
        Some r \<Rightarrow>
          (let (r', h') = copy_deep r h
           in (\<lparr>data = d, annualization = k, results = r'\<rparr>, h'))
      | None \<Rightarrow> (\<lparr>data = d, annualization = k, results = length h\<rparr>, h @ [DAList.empty]))"

text \<open>The property \<^verbatim>\<open>df\<close>, lines 65 to 67.\<close>

definition df :: "return_metrics \<Rightarrow> heap \<Rightarrow> nat \<times> heap" where
  "df self h = copy_deep (results self) h"

text \<open>\<^verbatim>\<open>_with_column\<close> and \<^verbatim>\<open>_with_columns\<close>, lines 72 to 89.\<close>

definition with_column :: "return_metrics \<Rightarrow> string \<Rightarrow> cell list \<Rightarrow> heap \<Rightarrow> return_metrics \<times> heap" where
  "with_column self name s h =
     (let (new_results, h1) = copy_deep (results self) h;
          h2 = setitem new_results (name, s) h1
      in init (data self) (annualization self) (Some new_results) h2)"

definition with_columns ::
  "return_metrics \<Rightarrow> (string \<times> cell list) list \<Rightarrow> heap \<Rightarrow> return_metrics \<times> heap" where
  "with_columns self new_series h =
     (let (new_results, h1) = copy_deep (results self) h;
          h2 = fold (setitem new_results) new_series h1
      in init (data self) (annualization self) (Some new_results) h2)"

subsection \<open>The statistic methods\<close>

definition data_columns :: "return_metrics \<Rightarrow> real list list" where
  "data_columns self = map snd (series (data self))"

text \<open>A method that ends with \<^verbatim>\<open>return\<close>, and the chaining of two calls: an exception
  of the first call ends the chain.\<close>

definition returning :: "return_metrics \<times> heap \<Rightarrow> (error + return_metrics) \<times> heap" where
  "returning r = (Inr (fst r), snd r)"

definition then_call ::
  "(error + return_metrics) \<times> heap \<Rightarrow>
   (return_metrics \<Rightarrow> heap \<Rightarrow> (error + return_metrics) \<times> heap) \<Rightarrow>
   (error + return_metrics) \<times> heap" where
  "then_call r m = (case fst r of Inl e \<Rightarrow> (Inl e, snd r) | Inr self \<Rightarrow> m self (snd r))"

text \<open>Lines 95 to 109.\<close>

definition mean :: "return_metrics \<Rightarrow> string \<Rightarrow> heap \<Rightarrow> (error + return_metrics) \<times> heap" where
  "mean self name h =
     (let mean = map (\<lambda>xs. cell_times (pd_mean xs) (real (annualization self)))
                   (data_columns self)
      in returning (with_column self name mean h))"

definition std :: "return_metrics \<Rightarrow> string \<Rightarrow> heap \<Rightarrow> (error + return_metrics) \<times> heap" where
  "std self name h =
     (let std = map (\<lambda>xs. cell_times (pd_std xs) (sqrt (real (annualization self))))
                  (data_columns self)
      in returning (with_column self name std h))"

definition skew :: "return_metrics \<Rightarrow> string \<Rightarrow> heap \<Rightarrow> (error + return_metrics) \<times> heap" where
  "skew self name h = returning (with_column self name (map pd_skew (data_columns self)) h)"

definition kurtosis :: "return_metrics \<Rightarrow> string \<Rightarrow> heap \<Rightarrow> (error + return_metrics) \<times> heap" where
  "kurtosis self name h =
     returning (with_column self name (map pd_kurtosis (data_columns self)) h)"

text \<open>
  Lines 111 to 113. \<^verbatim>\<open>DataFrame.quantile\<close> raises ValueError for a quantile outside
  \<open>[0, 1]\<close>.
\<close>

definition frame_quantile :: "real \<Rightarrow> real list list \<Rightarrow> error + cell list" where
  "frame_quantile q cols =
     (if 0 \<le> q \<and> q \<le> 1 then Inr (map (pd_quantile q) cols) else Inl ValueError)"

definition VaR :: "return_metrics \<Rightarrow> real \<Rightarrow> string \<Rightarrow> heap \<Rightarrow> (error + return_metrics) \<times> heap" where
  "VaR self quantile name h =
     (case frame_quantile quantile (data_columns self) of
        Inl e \<Rightarrow> (Inl e, h)
      | Inr var \<Rightarrow> returning (with_column self name var h))"

text \<open>
  Lines 115 to 117. The comparison of the table with the row of quantiles gives a table of
  booleans, one column of booleans per column of returns. The indexer \<^verbatim>\<open>.loc[key]\<close> of a
  table takes a one-dimensional key; given a table of booleans it raises ValueError
  (\<^verbatim>\<open>Cannot index with multidimensional key\<close>), whatever the table holds.
\<close>

definition le_quantiles :: "real list list \<Rightarrow> cell list \<Rightarrow> bool list list" where
  "le_quantiles cols qs = map2 (\<lambda>xs q. map (\<lambda>x. cell_le (Num x) q) xs) cols qs"

definition loc_getitem :: "real list list \<Rightarrow> bool list list \<Rightarrow> error + real list list" where
  "loc_getitem cols key = Inl ValueError"

definition CVaR :: "return_metrics \<Rightarrow> real \<Rightarrow> string \<Rightarrow> heap \<Rightarrow> (error + return_metrics) \<times> heap" where
  "CVaR self quantile name h =
     (case frame_quantile quantile (data_columns self) of
        Inl e \<Rightarrow> (Inl e, h)
      | Inr qs \<Rightarrow>
          (case loc_getitem (data_columns self) (le_quantiles (data_columns self) qs) of
             Inl e \<Rightarrow> (Inl e, h)
           | Inr tail \<Rightarrow> returning (with_column self name (map pd_mean tail) h)))"

text \<open>Lines 119 to 124. Python's division of a float by the integer zero raises.\<close>

definition sharpe :: "return_metrics \<Rightarrow> real \<Rightarrow> string \<Rightarrow> heap \<Rightarrow> (error + return_metrics) \<times> heap" where
  "sharpe self risk_free_rate name h =
     (if annualization self = 0 then (Inl ZeroDivisionError, h)
      else
        let excess_return = map (\<lambda>xs. cell_minus (pd_mean xs)
                                   (risk_free_rate / real (annualization self)))
                              (data_columns self);
            sharpe = map2 (\<lambda>e xs. cell_times (cell_divide e (pd_std xs))
                                     (sqrt (real (annualization self))))
                       excess_return (data_columns self)
        in returning (with_column self name sharpe h))"

text \<open>Lines 126 to 170.\<close>

definition max_drawdown ::
  "return_metrics \<Rightarrow> string \<Rightarrow> bool \<Rightarrow> string \<Rightarrow> heap \<Rightarrow> (error + return_metrics) \<times> heap" where
  "max_drawdown self name details data_type h =
     (if data_type = ''prices'' then
        (Inl (NotImplementedError
               ''max_drawdown with data_type='prices' is not implemented yet.''), h)
      else
        let max_drawdown = map (\<lambda>rs. pd_min (drawdown rs)) (data_columns self);
            new_data = [(name, max_drawdown)]
        in if details then
             (case dates_loop (time_index (data self)) (data_columns self) of
                Inl e \<Rightarrow> (Inl e, h)
              | Inr (peak_dates, through_dates, recovery_dates) \<Rightarrow>
                  returning (with_columns self
                    (AList.update (name @ ''_recovery_date'') recovery_dates
                      (AList.update (name @ ''_trough_date'') through_dates
                        (AList.update (name @ ''_peak_date'') peak_dates new_data))) h))
           else returning (with_columns self new_data h))"

text \<open>The composite methods, lines 173 to 177, with the defaults of the methods they chain.\<close>

definition basic_stats :: "return_metrics \<Rightarrow> heap \<Rightarrow> (error + return_metrics) \<times> heap" where
  "basic_stats self h =
     then_call (then_call (mean self ''mean'' h) (\<lambda>a. std a ''std''))
       (\<lambda>a. sharpe a 0 ''sharpe'')"

definition tail_risk :: "return_metrics \<Rightarrow> real \<Rightarrow> heap \<Rightarrow> (error + return_metrics) \<times> heap" where
  "tail_risk self quantile h =
     then_call (VaR self quantile ''VaR'' h) (\<lambda>a. CVaR a quantile ''CVaR'')"

text \<open>A call of any statistic method, with its arguments.\<close>

datatype stat_call =
    Mean string
  | Std string
  | Skew string
  | Kurtosis string
  | ValueAtRisk real string
  | CondValueAtRisk real string
  | Sharpe real string
  | MaxDrawdown string bool string
  | BasicStats
  | TailRisk real

fun call :: "stat_call \<Rightarrow> return_metrics \<Rightarrow> heap \<Rightarrow> (error + return_metrics) \<times> heap" where
  "call (Mean name) self h = mean self name h"
| "call (Std name) self h = std self name h"
| "call (Skew name) self h = skew self name h"
| "call (Kurtosis name) self h = kurtosis self name h"
| "call (ValueAtRisk q name) self h = VaR self q name h"
| "call (CondValueAtRisk q name) self h = CVaR self q name h"
| "call (Sharpe rf name) self h = sharpe self rf name h"
| "call (MaxDrawdown name details data_type) self h = max_drawdown self name details data_type h"
| "call BasicStats self h = basic_stats self h"
| "call (TailRisk q) self h = tail_risk self q h"

text \<open>The column names that a call assigns, in the order of the assignments.\<close>

fun written :: "stat_call \<Rightarrow> string list" where
  "written (Mean name) = [name]"
| "written (Std name) = [name]"
| "written (Skew name) = [name]"
| "written (Kurtosis name) = [name]"
| "written (ValueAtRisk q name) = [name]"
| "written (CondValueAtRisk q name) = [name]"
| "written (Sharpe rf name) = [name]"
| "written (MaxDrawdown name details data_type) =
     (if details
      then [name, name @ ''_peak_date'', name @ ''_trough_date'', name @ ''_recovery_date'']
      else [name])"
| "written BasicStats = [''mean'', ''std'', ''sharpe'']"
| "written (TailRisk q) = [''VaR'', ''CVaR'']"

subsection \<open>Attribute forwarding\<close>

text \<open>
  \<^verbatim>\<open>__getattr__\<close>, lines 50 to 58. Python calls it for a name that the ordinary lookup
  does not find on the accumulator. \<^verbatim>\<open>hasattr(self.results, name)\<close> holds for the
  attributes of the table class, a parameter here, and for the names of the table's
  columns, which pandas exposes as attributes. A forwarded access returns the attribute
  of the result table object.
\<close>

definition proxy :: "string list" where
  "proxy = [''head'', ''tail'', ''shape'', ''columns'', ''index'', ''dtypes'', ''T'',
            ''info'', ''describe'', ''to_csv'', ''to_excel'', ''to_dict'', ''to_json'',
            ''to_numpy'']"

datatype attribute = TableAttribute nat string

definition startswith :: "string \<Rightarrow> string \<Rightarrow> bool" where
  "startswith s p = (take (length p) s = p)"

definition hasattr :: "string list \<Rightarrow> frame \<Rightarrow> string \<Rightarrow> bool" where
  "hasattr class_attrs t name = (name \<in> set class_attrs \<or> name \<in> set (column_names t))"

text \<open>Python's \<^verbatim>\<open>'{...}'\<close> inside a format string.\<close>

definition quoted :: "string \<Rightarrow> string" where
  "quoted s = [CHR 0x27] @ s @ [CHR 0x27]"

definition getattr ::
  "string list \<Rightarrow> return_metrics \<Rightarrow> heap \<Rightarrow> string \<Rightarrow> error + attribute" where
  "getattr class_attrs self h name =
     (if name \<in> set proxy then Inr (TableAttribute (results self) name)
      else if startswith name ''_repr_'' \<and> hasattr class_attrs (h ! results self) name
      then Inr (TableAttribute (results self) name)
      else Inl (AttributeError
                 (quoted ''ReturnMetrics'' @ '' has no attribute '' @ quoted name @ ''. ''
                  @ ''Use `.df` for full DataFrame access.'')))"

subsection \<open>Derivation steps\<close>

text \<open>The table after a sequence of column assignments, and the relation between a call
  and what it returns: the heap grows by new tables only, the last of them is the table of
  the returned accumulator and holds the receiver's table with the columns \<open>cols\<close>
  assigned in that order, and the input table and the factor are the receiver's.
  A method is determined when, for each input table and factor, either every call returns,
  with the same assigned columns whatever the receiver's table and the heap are, or every
  call raises.\<close>

definition assign :: "(string \<times> cell list) list \<Rightarrow> frame \<Rightarrow> frame" where
  "assign cols t = fold (\<lambda>c. DAList.update (fst c) (snd c)) cols t"

definition derived ::
  "(string \<times> cell list) list \<Rightarrow> return_metrics \<Rightarrow> heap \<Rightarrow> return_metrics \<Rightarrow> heap \<Rightarrow> bool"
  where
  "derived cols self h b h' =
     (\<exists>ext. ext \<noteq> [] \<and>
        h' = h @ ext @ [assign cols (h ! results self)] \<and>
        results b = length h + length ext \<and>
        data b = data self \<and> annualization b = annualization self)"

definition determined ::
  "string list \<Rightarrow> (return_metrics \<Rightarrow> heap \<Rightarrow> (error + return_metrics) \<times> heap) \<Rightarrow> bool"
  where
  "determined names f =
     (\<forall>d k.
        (\<exists>cols. map fst cols = names \<and>
           (\<forall>s h. data s = d \<and> annualization s = k \<longrightarrow>
              (\<exists>b h'. f s h = (Inr b, h') \<and> derived cols s h b h'))) \<or>
        (\<forall>s h. data s = d \<and> annualization s = k \<longrightarrow> (\<exists>e. fst (f s h) = Inl e)))"

subsection \<open>Concrete accumulators\<close>

text \<open>The returns of the literal drawdown scenario of the specification, as decimal numbers
  and as the float64 values that the table holds for them.\<close>

definition scenario_returns :: "real list" where
  "scenario_returns = [1 / 10, - (1 / 5), 1 / 20, 1 / 10, 0]"

definition scenario_floats :: "real list" where
  "scenario_floats = map f64 scenario_returns"

text \<open>An accumulator fresh from the constructor, over one asset, with the factor 1.\<close>

definition single_asset :: "index \<Rightarrow> real list \<Rightarrow> return_metrics \<times> heap" where
  "single_asset idx rs =
     init \<lparr>time_index = idx, series = [(''asset'', rs)]\<rparr> 1 None []"

text \<open>A column whose wealth stays at its peak for a step before it falls, a column whose
  first return loses more than everything, a column that never falls, and a column that
  falls and recovers.\<close>

definition tie_returns :: "real list" where
  "tie_returns = [f64 (1 / 10), 0, f64 (- (1 / 5))]"


definition rising_returns :: "real list" where
  "rising_returns = [1 / 2, 0]"

definition rebound_returns :: "real list" where
  "rebound_returns = [0, - (1 / 2), 3]"

text \<open>An accumulator over one column of two equal returns, with annualization factor 4, whose
  result table has the columns \<open>x\<close> and \<open>y\<close>.\<close>

definition flat_data :: data_frame where
  "flat_data = \<lparr>time_index = LabelIndex, series = [(''a'', [1, 1])]\<rparr>"

definition flat_acc :: return_metrics where
  "flat_acc = \<lparr>data = flat_data, annualization = 4, results = 0\<rparr>"

definition flat_heap :: heap where
  "flat_heap = [DAList.update ''y'' [Num 7] (DAList.update ''x'' [Num 4] DAList.empty)]"

subsection \<open>The tail mean as the specification words it\<close>

text \<open>
  The specification describes CVaR as the mean of all returns of a column that are at or
  below the \<open>q\<close>-quantile of the column. This second definition follows those words, for
  the comparison with what \<open>CVaR\<close> above does.
\<close>

definition spec_tail_mean :: "real \<Rightarrow> real list \<Rightarrow> cell" where
  "spec_tail_mean q xs = pd_mean (filter (\<lambda>x. cell_le (Num x) (pd_quantile q xs)) xs)"

section \<open>Properties\<close>

subsection \<open>Column assignment and derivation\<close>

lemma assign_Nil [simp]: "assign [] t = t"
  by (simp add: assign_def)

lemma assign_Cons [simp]: "assign (c # cols) t = assign cols (DAList.update (fst c) (snd c) t)"
  by (simp add: assign_def)

lemma assign_append: "assign (cs @ ds) t = assign ds (assign cs t)"
  by (simp add: assign_def)

lemma fold_setitem: "fold (setitem (length h)) cols (h @ [t]) = h @ [assign cols t]"
  by (induction cols arbitrary: t) (simp_all add: setitem_def)

lemma with_columns_eq:
  "with_columns self cols h =
     (\<lparr>data = data self, annualization = annualization self, results = Suc (length h)\<rparr>,
      h @ [assign cols (h ! results self), assign cols (h ! results self)])"
  by (simp add: with_columns_def copy_deep_def init_def fold_setitem nth_append)

lemma with_column_eq:
  "with_column self name s h = with_columns self [(name, s)] h"
  by (simp add: with_column_def with_columns_def)

lemma returning_derived:
  "\<exists>b h'. returning (with_columns self cols h) = (Inr b, h') \<and> derived cols self h b h'"
proof -
  have "returning (with_columns self cols h) =
      (Inr \<lparr>data = data self, annualization = annualization self, results = Suc (length h)\<rparr>,
       h @ [assign cols (h ! results self), assign cols (h ! results self)])"
    by (simp add: with_columns_eq returning_def)
  moreover have "derived cols self h
      \<lparr>data = data self, annualization = annualization self, results = Suc (length h)\<rparr>
      (h @ [assign cols (h ! results self), assign cols (h ! results self)])"
    unfolding derived_def
    by (intro exI [of _ "[assign cols (h ! results self)]"]) simp
  ultimately show ?thesis by blast
qed

lemma derived_trans:
  assumes "derived cs a h b h1" and "derived ds b h1 c h2"
  shows "derived (cs @ ds) a h c h2"
proof -
  from assms(1) obtain e1 where 1: "e1 \<noteq> []"
    "h1 = h @ e1 @ [assign cs (h ! results a)]" "results b = length h + length e1"
    "data b = data a" "annualization b = annualization a"
    unfolding derived_def by blast
  from assms(2) obtain e2 where 2: "e2 \<noteq> []"
    "h2 = h1 @ e2 @ [assign ds (h1 ! results b)]" "results c = length h1 + length e2"
    "data c = data b" "annualization c = annualization b"
    unfolding derived_def by blast
  have "h1 ! results b = assign cs (h ! results a)"
    using 1 by (simp add: nth_append)
  then have "h2 = h @ (e1 @ [assign cs (h ! results a)] @ e2) @ [assign (cs @ ds) (h ! results a)]"
    using 1 2 by (simp add: assign_append)
  moreover have "results c = length h + length (e1 @ [assign cs (h ! results a)] @ e2)"
    using 1 2 by simp
  ultimately show ?thesis
    unfolding derived_def using 1 2
    by (intro exI [of _ "e1 @ [assign cs (h ! results a)] @ e2"]) simp
qed

lemma derivedD:
  assumes "derived cols self h b h'"
  shows "h' ! results b = assign cols (h ! results self)"
    and "length h < results b" and "results b < length h'" and "take (length h) h' = h"
    and "data b = data self" and "annualization b = annualization self"
  using assms unfolding derived_def by (auto simp: nth_append)

text \<open>A method whose outcome, an error or the columns to assign, is a function of the input
  table and the factor is determined; so is a chain of two determined methods.\<close>

lemma determined_outcome:
  assumes f: "\<And>s h. f s h =
      (case e (data s) (annualization s) of
         Inl err \<Rightarrow> (Inl err, h)
       | Inr cols \<Rightarrow> returning (with_columns s cols h))"
    and n: "\<And>d k cols. e d k = Inr cols \<Longrightarrow> map fst cols = names"
  shows "determined names f"
  unfolding determined_def
proof (intro allI)
  fix d k
  show "(\<exists>cols. map fst cols = names \<and>
           (\<forall>s h. data s = d \<and> annualization s = k \<longrightarrow>
              (\<exists>b h'. f s h = (Inr b, h') \<and> derived cols s h b h'))) \<or>
        (\<forall>s h. data s = d \<and> annualization s = k \<longrightarrow> (\<exists>e. fst (f s h) = Inl e))"
  proof (cases "e d k")
    case (Inl err)
    then have "\<forall>s h. data s = d \<and> annualization s = k \<longrightarrow> (\<exists>e. fst (f s h) = Inl e)"
      by (simp add: f)
    then show ?thesis ..
  next
    case (Inr cols)
    have "\<exists>b h'. f s h = (Inr b, h') \<and> derived cols s h b h'"
      if "data s = d \<and> annualization s = k" for s h
      using that Inr returning_derived [of s cols h] by (simp add: f)
    with n [OF Inr] show ?thesis by blast
  qed
qed

lemma determined_then:
  assumes f: "determined ns f" and g: "determined ms g"
  shows "determined (ns @ ms) (\<lambda>s h. then_call (f s h) g)"
  unfolding determined_def
proof (intro allI)
  fix d k
  let ?raises = "\<lambda>f. \<forall>s h. data s = d \<and> annualization s = k \<longrightarrow> (\<exists>e. fst (f s h) = Inl e)"
  let ?returns = "\<lambda>f cols. \<forall>s h. data s = d \<and> annualization s = k \<longrightarrow>
      (\<exists>b h'. f s h = (Inr b, h') \<and> derived cols s h b h')"
  from f consider cs where "map fst cs = ns" "?returns f cs" | "?raises f"
    unfolding determined_def by blast
  then show "(\<exists>cols. map fst cols = ns @ ms \<and> ?returns (\<lambda>s h. then_call (f s h) g) cols) \<or>
      ?raises (\<lambda>s h. then_call (f s h) g)"
  proof cases
    case 2
    have "\<exists>e. fst (then_call (f s h) g) = Inl e"
      if sk: "data s = d \<and> annualization s = k" for s h
    proof -
      from 2 sk obtain e where "fst (f s h) = Inl e" by blast
      then show ?thesis by (simp add: then_call_def)
    qed
    then show ?thesis by blast
  next
    case 1
    from g consider ds where "map fst ds = ms" "?returns g ds" | "?raises g"
      unfolding determined_def by blast
    then show ?thesis
    proof cases
      case 2
      have "\<exists>e. fst (then_call (f s h) g) = Inl e"
        if sk: "data s = d \<and> annualization s = k" for s h
      proof -
        from 1(2) sk obtain b h1 where b: "f s h = (Inr b, h1)" "derived cs s h b h1"
          by blast
        then have "data b = d \<and> annualization b = k"
          using sk derivedD(5,6) by metis
        with 2 obtain e where "fst (g b h1) = Inl e" by blast
        with b(1) show ?thesis by (simp add: then_call_def)
      qed
      then show ?thesis by blast
    next
      case ds: 1
      have "\<exists>c h2. then_call (f s h) g = (Inr c, h2) \<and> derived (cs @ ds) s h c h2"
        if sk: "data s = d \<and> annualization s = k" for s h
      proof -
        from 1(2) sk obtain b h1 where b: "f s h = (Inr b, h1)" "derived cs s h b h1"
          by blast
        then have "data b = d \<and> annualization b = k"
          using sk derivedD(5,6) by metis
        with ds(2) obtain c h2 where c: "g b h1 = (Inr c, h2)" "derived ds b h1 c h2"
          by blast
        from b(1) c(1) have "then_call (f s h) g = (Inr c, h2)"
          by (simp add: then_call_def)
        with derived_trans [OF b(2) c(2)] show ?thesis by blast
      qed
      with 1(1) ds(1) show ?thesis by (intro disjI1 exI [of _ "cs @ ds"]) simp
    qed
  qed
qed

lemma determinedD:
  assumes "determined names f" and "f s h = (Inr b, h')"
  shows "\<exists>cols. map fst cols = names \<and> derived cols s h b h' \<and>
           (\<forall>s2 h2. data s2 = data s \<and> annualization s2 = annualization s \<longrightarrow>
              (\<exists>b2 h2'. f s2 h2 = (Inr b2, h2') \<and> derived cols s2 h2 b2 h2'))"
proof -
  from assms(1) consider cols where "map fst cols = names"
      "\<forall>s2 h2. data s2 = data s \<and> annualization s2 = annualization s \<longrightarrow>
         (\<exists>b2 h2'. f s2 h2 = (Inr b2, h2') \<and> derived cols s2 h2 b2 h2')"
    | "\<forall>s2 h2. data s2 = data s \<and> annualization s2 = annualization s \<longrightarrow>
         (\<exists>e. fst (f s2 h2) = Inl e)"
    unfolding determined_def by blast
  then show ?thesis
  proof cases
    case 1
    from 1(2) obtain b2 h2' where "f s h = (Inr b2, h2')" "derived cols s h b2 h2'" by blast
    with assms(2) have "derived cols s h b h'" by simp
    with 1 show ?thesis by blast
  next
    case 2
    then obtain e where "fst (f s h) = Inl e" by blast
    with assms(2) show ?thesis by simp
  qed
qed

lemma details_keys:
  "map fst (AList.update (name @ ''_recovery_date'') r
      (AList.update (name @ ''_trough_date'') t
        (AList.update (name @ ''_peak_date'') p [(name, m)]))) =
   [name, name @ ''_peak_date'', name @ ''_trough_date'', name @ ''_recovery_date'']"
  by simp

lemma mean_determined: "determined [name] (\<lambda>s. mean s name)"
  by (rule determined_outcome
      [where e = "\<lambda>d k. Inr [(name, map (\<lambda>xs. cell_times (pd_mean xs) (real k))
         (map snd (series d)))]"])
     (auto simp: mean_def with_column_eq data_columns_def)

lemma std_determined: "determined [name] (\<lambda>s. std s name)"
  by (rule determined_outcome
      [where e = "\<lambda>d k. Inr [(name, map (\<lambda>xs. cell_times (pd_std xs) (sqrt (real k)))
         (map snd (series d)))]"])
     (auto simp: std_def with_column_eq data_columns_def)

lemma skew_determined: "determined [name] (\<lambda>s. skew s name)"
  by (rule determined_outcome
      [where e = "\<lambda>d k. Inr [(name, map pd_skew (map snd (series d)))]"])
     (auto simp: skew_def with_column_eq data_columns_def)

lemma kurtosis_determined: "determined [name] (\<lambda>s. kurtosis s name)"
  by (rule determined_outcome
      [where e = "\<lambda>d k. Inr [(name, map pd_kurtosis (map snd (series d)))]"])
     (auto simp: kurtosis_def with_column_eq data_columns_def)

lemma VaR_determined: "determined [name] (\<lambda>s. VaR s q name)"
  by (rule determined_outcome
      [where e = "\<lambda>d k. case frame_quantile q (map snd (series d)) of
         Inl err \<Rightarrow> Inl err | Inr var \<Rightarrow> Inr [(name, var)]"])
     (auto simp: VaR_def with_column_eq data_columns_def split: sum.splits)

lemma CVaR_result: "fst (CVaR self q name h) = Inl ValueError \<and> snd (CVaR self q name h) = h"
  by (auto simp: CVaR_def loc_getitem_def frame_quantile_def split: sum.splits)

lemma CVaR_determined: "determined [name] (\<lambda>s. CVaR s q name)"
proof (rule determined_outcome [where e = "\<lambda>d k. Inl ValueError"])
  show "CVaR s q name h =
      (case Inl ValueError of Inl err \<Rightarrow> (Inl err, h)
       | Inr cols \<Rightarrow> returning (with_columns s cols h))" for s h
    using CVaR_result [of s q name h] by (cases "CVaR s q name h") simp
qed simp

lemma sharpe_determined: "determined [name] (\<lambda>s. sharpe s rf name)"
  by (rule determined_outcome
      [where e = "\<lambda>d k. if k = 0 then Inl ZeroDivisionError
         else Inr [(name, map2 (\<lambda>e xs. cell_times (cell_divide e (pd_std xs)) (sqrt (real k)))
                (map (\<lambda>xs. cell_minus (pd_mean xs) (rf / real k)) (map snd (series d)))
                (map snd (series d)))]"])
     (auto simp: sharpe_def with_column_eq data_columns_def Let_def split: if_splits)

lemma max_drawdown_determined:
  "determined (written (MaxDrawdown name details dt)) (\<lambda>s. max_drawdown s name details dt)"
  by (rule determined_outcome
      [where e = "\<lambda>d k. if dt = ''prices''
         then Inl (NotImplementedError
                ''max_drawdown with data_type='prices' is not implemented yet.'')
         else if details then
           (case dates_loop (time_index d) (map snd (series d)) of
              Inl err \<Rightarrow> Inl err
            | Inr (ps, ts, rcs) \<Rightarrow>
                Inr [(name, map (\<lambda>rs. pd_min (drawdown rs)) (map snd (series d))),
                     (name @ ''_peak_date'', ps), (name @ ''_trough_date'', ts),
                     (name @ ''_recovery_date'', rcs)])
         else Inr [(name, map (\<lambda>rs. pd_min (drawdown rs)) (map snd (series d)))]"])
     (auto simp: max_drawdown_def data_columns_def Let_def split: if_splits sum.splits prod.splits)

lemma basic_stats_determined: "determined [''mean'', ''std'', ''sharpe''] basic_stats"
proof -
  have "determined ([''mean''] @ [''std''])
      (\<lambda>s h. then_call (mean s ''mean'' h) (\<lambda>a. std a ''std''))"
    by (rule determined_then [OF mean_determined std_determined])
  then have "determined (([''mean''] @ [''std'']) @ [''sharpe''])
      (\<lambda>s h. then_call (then_call (mean s ''mean'' h) (\<lambda>a. std a ''std''))
         (\<lambda>a. sharpe a 0 ''sharpe''))"
    by (rule determined_then [OF _ sharpe_determined])
  then show ?thesis
    by (simp add: basic_stats_def [abs_def])
qed

lemma tail_risk_determined: "determined [''VaR'', ''CVaR''] (\<lambda>s. tail_risk s q)"
  using determined_then [OF VaR_determined [of "''VaR''" q] CVaR_determined [of "''CVaR''" q]]
  by (simp add: tail_risk_def [abs_def])

lemma call_determined: "determined (written m) (call m)"
proof (cases m)
  case (Mean name)
  have "call (Mean name) = (\<lambda>s. mean s name)" by (intro ext) simp
  with Mean show ?thesis by (simp add: mean_determined)
next
  case (Std name)
  have "call (Std name) = (\<lambda>s. std s name)" by (intro ext) simp
  with Std show ?thesis by (simp add: std_determined)
next
  case (Skew name)
  have "call (Skew name) = (\<lambda>s. skew s name)" by (intro ext) simp
  with Skew show ?thesis by (simp add: skew_determined)
next
  case (Kurtosis name)
  have "call (Kurtosis name) = (\<lambda>s. kurtosis s name)" by (intro ext) simp
  with Kurtosis show ?thesis by (simp add: kurtosis_determined)
next
  case (ValueAtRisk q name)
  have "call (ValueAtRisk q name) = (\<lambda>s. VaR s q name)" by (intro ext) simp
  with ValueAtRisk show ?thesis by (simp add: VaR_determined)
next
  case (CondValueAtRisk q name)
  have "call (CondValueAtRisk q name) = (\<lambda>s. CVaR s q name)" by (intro ext) simp
  with CondValueAtRisk show ?thesis by (simp add: CVaR_determined)
next
  case (Sharpe rf name)
  have "call (Sharpe rf name) = (\<lambda>s. sharpe s rf name)" by (intro ext) simp
  with Sharpe show ?thesis by (simp add: sharpe_determined)
next
  case (MaxDrawdown name details dt)
  have "call (MaxDrawdown name details dt) = (\<lambda>s. max_drawdown s name details dt)"
    by (intro ext) simp
  with MaxDrawdown show ?thesis using max_drawdown_determined [of name details dt] by simp
next
  case BasicStats
  have "call BasicStats = basic_stats" by (intro ext) simp
  with BasicStats show ?thesis by (simp add: basic_stats_determined)
next
  case (TailRisk q)
  have "call (TailRisk q) = (\<lambda>s. tail_risk s q)" by (intro ext) simp
  with TailRisk show ?thesis by (simp add: tail_risk_determined)
qed

lemma call_derived:
  "call m self h = (Inr b, h') \<Longrightarrow> \<exists>cols. map fst cols = written m \<and> derived cols self h b h'"
  using determinedD [OF call_determined] by blast

subsection \<open>Tables after a derivation\<close>

lemma column_names_update:
  "column_names (DAList.update k v t) =
     (if k \<in> set (column_names t) then column_names t else column_names t @ [k])"
  by (simp add: column_names_def DAList.update.rep_eq update_keys)

lemma column_names_assign_prefix:
  "\<exists>new. column_names (assign cols t) = column_names t @ new \<and> set new \<subseteq> set (map fst cols)
      \<and> set new \<inter> set (column_names t) = {} "
proof (induction cols arbitrary: t)
  case Nil
  then show ?case by simp
next
  case (Cons c cols)
  from Cons [of "DAList.update (fst c) (snd c) t"] obtain new where
    n: "column_names (assign cols (DAList.update (fst c) (snd c) t)) =
          column_names (DAList.update (fst c) (snd c) t) @ new"
      "set new \<subseteq> set (map fst cols)"
      "set new \<inter> set (column_names (DAList.update (fst c) (snd c) t)) = {}"
    by blast
  show ?case
  proof (cases "fst c \<in> set (column_names t)")
    case True
    with n show ?thesis by (intro exI [of _ new]) (auto simp: column_names_update)
  next
    case False
    with n show ?thesis
      by (intro exI [of _ "fst c # new"]) (auto simp: column_names_update)
  qed
qed

lemma column_names_assign_same:
  "set (map fst cols) \<subseteq> set (column_names t) \<Longrightarrow> column_names (assign cols t) = column_names t"
proof -
  assume sub: "set (map fst cols) \<subseteq> set (column_names t)"
  from column_names_assign_prefix [of cols t] obtain new where
    n: "column_names (assign cols t) = column_names t @ new" "set new \<subseteq> set (map fst cols)"
       "set new \<inter> set (column_names t) = {}"
    by blast
  from n(2,3) sub have "set new = {}" by (auto simp: subset_iff disjoint_iff)
  with n(1) show ?thesis by simp
qed

lemma distinct_column_names [simp]: "distinct (column_names t)"
  by (simp add: column_names_def)

lemma lookup_assign_other:
  "c \<notin> set (map fst cols) \<Longrightarrow> DAList.lookup (assign cols t) c = DAList.lookup t c"
  by (induction cols arbitrary: t) (auto simp: DAList.lookup_update)

lemma lookup_assign_last:
  "DAList.lookup (assign (cols @ [(c, v)]) t) c = Some v"
  by (simp add: assign_append)

lemma column_names_iff: "c \<in> set (column_names t) \<longleftrightarrow> DAList.lookup t c \<noteq> None"
  by (simp add: column_names_def DAList.lookup.rep_eq map_of_eq_None_iff)

lemma count_list_distinct: "distinct xs \<Longrightarrow> x \<in> set xs \<Longrightarrow> count_list xs x = 1"
  by (induction xs) auto

lemma lookup_assign_in:
  "c \<in> set (map fst cols) \<Longrightarrow> DAList.lookup (assign cols t) c = map_of (rev cols) c"
proof (induction cols arbitrary: t)
  case Nil
  then show ?case by simp
next
  case (Cons a cols)
  show ?case
  proof (cases "c \<in> set (map fst cols)")
    case True
    then have "map_of (rev cols) c \<noteq> None"
      by (simp add: map_of_eq_None_iff)
    with Cons.IH [OF True] show ?thesis
      by (auto simp: map_add_def split: option.splits)
  next
    case False
    with Cons.prems have "c = fst a" by simp
    moreover from False have "map_of (rev cols) c = None"
      by (simp add: map_of_eq_None_iff)
    ultimately show ?thesis
      using False by (simp add: lookup_assign_other map_add_def)
  qed
qed

lemma then_call_heap:
  assumes "\<exists>e. snd r = h @ e" and "\<And>b h1. \<exists>e. snd (m b h1) = h1 @ e"
  shows "\<exists>e. snd (then_call r m) = h @ e"
proof (cases "fst r")
  case (Inl e)
  with assms(1) show ?thesis by (simp add: then_call_def)
next
  case (Inr b)
  from assms(1) obtain e1 where "snd r = h @ e1" by blast
  moreover from assms(2) [of b "snd r"] obtain e2 where "snd (m b (snd r)) = snd r @ e2" by blast
  ultimately show ?thesis using Inr by (simp add: then_call_def)
qed

lemma returning_heap: "\<exists>e. snd (returning (with_columns self cols h)) = h @ e"
  by (simp add: returning_def with_columns_eq)

lemma returning_heap1: "\<exists>e. snd (returning (with_column self name s h)) = h @ e"
  by (simp add: returning_def with_column_eq with_columns_eq)

lemma call_heap: "\<exists>e. snd (call m self h) = h @ e"
proof (cases m)
  case (ValueAtRisk q name)
  then show ?thesis by (auto simp: VaR_def returning_heap1 split: sum.splits)
next
  case (CondValueAtRisk q name)
  then show ?thesis using CVaR_result [of self q name h] by simp
next
  case (Sharpe rf name)
  then show ?thesis by (simp add: sharpe_def Let_def returning_heap1)
next
  case (MaxDrawdown name details dt)
  then show ?thesis
    by (auto simp: max_drawdown_def Let_def returning_heap split: sum.splits prod.splits)
next
  case BasicStats
  have 1: "\<exists>e. snd (mean self ''mean'' h) = h @ e" by (simp add: mean_def returning_heap1)
  have 2: "\<And>b h1. \<exists>e. snd (std b ''std'' h1) = h1 @ e" by (simp add: std_def returning_heap1)
  have 3: "\<And>b h1. \<exists>e. snd (sharpe b 0 ''sharpe'' h1) = h1 @ e"
    by (simp add: sharpe_def Let_def returning_heap1)
  show ?thesis unfolding BasicStats call.simps basic_stats_def
    by (intro then_call_heap 1 2 3)
next
  case (TailRisk q)
  have 1: "\<exists>e. snd (VaR self q ''VaR'' h) = h @ e"
    by (auto simp: VaR_def returning_heap1 split: sum.splits)
  have 2: "\<And>b h1. \<exists>e. snd (CVaR b q ''CVaR'' h1) = h1 @ e"
    using CVaR_result by simp
  show ?thesis unfolding TailRisk call.simps tail_risk_def
    by (intro then_call_heap 1 2)
qed (simp_all add: mean_def std_def skew_def kurtosis_def returning_heap1)

subsection \<open>Derivation: what a call leaves alone, and the order of the columns\<close>

lemma flat_std:
  "std flat_acc ''x'' flat_heap =
     (Inr \<lparr>data = flat_data, annualization = 4, results = 2\<rparr>,
      flat_heap @ [DAList.update ''x'' [Num 0] (flat_heap ! 0),
                   DAList.update ''x'' [Num 0] (flat_heap ! 0)])"
  by (simp add: std_def returning_def with_column_eq with_columns_eq flat_acc_def flat_heap_def
      data_columns_def flat_data_def pd_std_def central_moment_sum_def Let_def numeral_2_eq_2)

lemma flat_names: "column_names (flat_heap ! 0) = [''x'', ''y'']"
  by (simp add: flat_heap_def column_names_update)
     (simp add: column_names_def DAList.empty.rep_eq)

text \<open>
  Claim C1, as amended. For every accumulator whose result table is an object of the heap,
  and every call of a statistic method: every table that existed before the call is the same
  after it, the receiver's among them, whether the call returns or raises. When the call
  returns, the returned accumulator has a result table other than the receiver's, the
  receiver's input table and annualization factor, every column name of the receiver's
  table, and, for every name that the call does not assign, the cells the receiver has
  under that name. A column whose name the call assigns is overwritten: the returned table
  has a column of that name, and its cells are those that the same call writes under that
  name for every receiver with the same input table and factor, whatever that receiver's
  table holds.
\<close>

theorem derive_leaves_receiver:
  assumes "results self < length h"
  shows "take (length h) (snd (call m self h)) = h \<and>
         snd (call m self h) ! results self = h ! results self \<and>
         (\<forall>b. fst (call m self h) = Inr b \<longrightarrow>
            results b \<noteq> results self \<and> data b = data self \<and>
            annualization b = annualization self \<and>
            set (column_names (h ! results self))
              \<subseteq> set (column_names (snd (call m self h) ! results b)) \<and>
            (\<forall>c. c \<notin> set (written m) \<longrightarrow>
               DAList.lookup (snd (call m self h) ! results b) c =
               DAList.lookup (h ! results self) c) \<and>
            (\<forall>c\<in>set (written m).
               DAList.lookup (snd (call m self h) ! results b) c \<noteq> None) \<and>
            (\<forall>s g. data s = data self \<and> annualization s = annualization self \<longrightarrow>
               (\<exists>d. fst (call m s g) = Inr d \<and>
                  (\<forall>c\<in>set (written m).
                     DAList.lookup (snd (call m s g) ! results d) c =
                     DAList.lookup (snd (call m self h) ! results b) c))))"
proof -
  obtain e where e: "snd (call m self h) = h @ e"
    using call_heap by blast
  have "take (length h) (snd (call m self h)) = h"
    by (simp add: e)
  moreover have "snd (call m self h) ! results self = h ! results self"
    using assms by (simp add: e nth_append)
  moreover have "results b \<noteq> results self \<and> data b = data self \<and>
      annualization b = annualization self \<and>
      set (column_names (h ! results self))
        \<subseteq> set (column_names (snd (call m self h) ! results b)) \<and>
      (\<forall>c. c \<notin> set (written m) \<longrightarrow>
         DAList.lookup (snd (call m self h) ! results b) c =
         DAList.lookup (h ! results self) c) \<and>
      (\<forall>c\<in>set (written m).
         DAList.lookup (snd (call m self h) ! results b) c \<noteq> None) \<and>
      (\<forall>s g. data s = data self \<and> annualization s = annualization self \<longrightarrow>
         (\<exists>d. fst (call m s g) = Inr d \<and>
            (\<forall>c\<in>set (written m).
               DAList.lookup (snd (call m s g) ! results d) c =
               DAList.lookup (snd (call m self h) ! results b) c)))"
    if "fst (call m self h) = Inr b" for b
  proof -
    from that have "call m self h = (Inr b, snd (call m self h))"
      by (cases "call m self h") simp
    from determinedD [OF call_determined this] obtain cols where
      cols: "map fst cols = written m"
      and d: "derived cols self h b (snd (call m self h))"
      and o: "\<forall>s g. data s = data self \<and> annualization s = annualization self \<longrightarrow>
         (\<exists>d g'. call m s g = (Inr d, g') \<and> derived cols s g d g')"
      by blast
    have t: "snd (call m self h) ! results b = assign cols (h ! results self)"
      using d by (rule derivedD(1))
    from column_names_assign_prefix [of cols "h ! results self"]
    have "set (column_names (h ! results self))
        \<subseteq> set (column_names (snd (call m self h) ! results b))"
      using t by auto
    moreover have "DAList.lookup (snd (call m self h) ! results b) c =
        DAList.lookup (h ! results self) c" if "c \<notin> set (written m)" for c
      using that cols t by (simp add: lookup_assign_other)
    moreover have w: "DAList.lookup (snd (call m self h) ! results b) c = map_of (rev cols) c"
      if "c \<in> set (written m)" for c
      using that cols t by (simp add: lookup_assign_in)
    moreover have "DAList.lookup (snd (call m self h) ! results b) c \<noteq> None"
      if "c \<in> set (written m)" for c
    proof -
      from that cols have "c \<in> set (map fst cols)" by simp
      then have "c \<in> fst ` set (rev cols)" by simp
      then have "map_of (rev cols) c \<noteq> None" by (simp add: map_of_eq_None_iff)
      with w [OF that] show ?thesis by simp
    qed
    moreover have "\<exists>d. fst (call m s g) = Inr d \<and>
        (\<forall>c\<in>set (written m).
           DAList.lookup (snd (call m s g) ! results d) c =
           DAList.lookup (snd (call m self h) ! results b) c)"
      if "data s = data self \<and> annualization s = annualization self" for s g
    proof -
      from o that obtain d g' where
        r: "call m s g = (Inr d, g')" "derived cols s g d g'"
        by blast
      have "g' ! results d = assign cols (g ! results s)"
        using r(2) by (rule derivedD(1))
      then have "DAList.lookup (snd (call m s g) ! results d) c =
          DAList.lookup (snd (call m self h) ! results b) c" if "c \<in> set (written m)" for c
        using that cols w [OF that] r(1) by (simp add: lookup_assign_in)
      with r(1) show ?thesis by simp
    qed
    ultimately show ?thesis
      using derivedD(2,5,6) [OF d] assms by auto
  qed
  ultimately show ?thesis by blast
qed

text \<open>An instance: \<open>std("x")\<close> on a table with the columns \<open>x\<close> and \<open>y\<close> returns, leaves
  the receiver's table as it was, keeps the column \<open>y\<close>, and writes under \<open>x\<close> the cells that
  it writes for a receiver with an empty table.\<close>

theorem derive_leaves_receiver_witness:
  "results flat_acc < length flat_heap \<and>
   fst (call (Std ''x'') flat_acc flat_heap) =
     Inr \<lparr>data = flat_data, annualization = 4, results = 2\<rparr> \<and>
   ''y'' \<notin> set (written (Std ''x'')) \<and> ''x'' \<in> set (written (Std ''x'')) \<and>
   snd (call (Std ''x'') flat_acc flat_heap) ! results flat_acc = flat_heap ! results flat_acc \<and>
   DAList.lookup (snd (call (Std ''x'') flat_acc flat_heap) ! 2) ''y'' =
     DAList.lookup (flat_heap ! results flat_acc) ''y'' \<and>
   DAList.lookup (snd (call (Std ''x'') flat_acc flat_heap) ! 2) ''x'' \<noteq> None \<and>
   fst (call (Std ''x'') flat_acc [DAList.empty]) =
     Inr \<lparr>data = flat_data, annualization = 4, results = 2\<rparr> \<and>
   DAList.lookup (snd (call (Std ''x'') flat_acc [DAList.empty]) ! 2) ''x'' =
     DAList.lookup (snd (call (Std ''x'') flat_acc flat_heap) ! 2) ''x''"
proof -
  have v: "results flat_acc < length flat_heap"
    by (simp add: flat_acc_def flat_heap_def)
  have r: "fst (call (Std ''x'') flat_acc flat_heap) =
      Inr \<lparr>data = flat_data, annualization = 4, results = 2\<rparr>"
    by (simp add: flat_std)
  have r2: "fst (call (Std ''x'') flat_acc [DAList.empty]) =
      Inr \<lparr>data = flat_data, annualization = 4, results = 2\<rparr>"
    by (simp add: std_def returning_def with_column_eq with_columns_eq flat_acc_def Let_def
        numeral_2_eq_2)
  from derive_leaves_receiver [OF v, of "Std ''x''"] r have
    a: "snd (call (Std ''x'') flat_acc flat_heap) ! results flat_acc =
          flat_heap ! results flat_acc"
    and b: "DAList.lookup (snd (call (Std ''x'') flat_acc flat_heap) ! 2) ''y'' =
          DAList.lookup (flat_heap ! results flat_acc) ''y''"
    and c: "DAList.lookup (snd (call (Std ''x'') flat_acc flat_heap) ! 2) ''x'' \<noteq> None"
    and d: "\<exists>d. fst (call (Std ''x'') flat_acc [DAList.empty]) = Inr d \<and>
          (\<forall>c\<in>set (written (Std ''x'')).
             DAList.lookup (snd (call (Std ''x'') flat_acc [DAList.empty]) ! results d) c =
             DAList.lookup (snd (call (Std ''x'') flat_acc flat_heap) ! 2) c)"
    by auto
  from d r2 have "DAList.lookup (snd (call (Std ''x'') flat_acc [DAList.empty]) ! 2) ''x'' =
      DAList.lookup (snd (call (Std ''x'') flat_acc flat_heap) ! 2) ''x''"
    by auto
  with v r r2 a b c show ?thesis by simp
qed

text \<open>
  The claim as stated, all columns of the receiver preserved unchanged, fails where the call
  assigns a name that the receiver already has: \<open>std("x")\<close> on a table with a column
  \<open>x\<close> replaces its cells.
\<close>

theorem derive_overwrites_counterexample:
  "fst (call (Std ''x'') flat_acc flat_heap) =
     Inr \<lparr>data = flat_data, annualization = 4, results = 2\<rparr> \<and>
   ''x'' \<in> set (column_names (flat_heap ! results flat_acc)) \<and>
   DAList.lookup (flat_heap ! results flat_acc) ''x'' = Some [Num 4] \<and>
   DAList.lookup (snd (call (Std ''x'') flat_acc flat_heap) ! 2) ''x'' = Some [Num 0]"
  by (simp add: flat_std) (simp add: flat_heap_def flat_acc_def column_names_iff)

text \<open>
  Claim C10. When a call of a statistic method returns, every column of the receiver's table
  is at the same position in the table of the returned accumulator, an overwritten column
  included; columns that the call adds come after them. When every name that the call assigns
  is already present, the column names and their order are the same.
\<close>

theorem column_order_kept:
  assumes "call m self h = (Inr b, h')"
  shows "take (length (column_names (h ! results self))) (column_names (h' ! results b)) =
           column_names (h ! results self) \<and>
         (set (written m) \<subseteq> set (column_names (h ! results self)) \<longrightarrow>
            column_names (h' ! results b) = column_names (h ! results self))"
proof -
  from call_derived [OF assms] obtain cols where
    cols: "map fst cols = written m" "h' ! results b = assign cols (h ! results self)"
    using derivedD(1) by blast
  from column_names_assign_prefix [of cols "h ! results self"] cols(2)
  have "take (length (column_names (h ! results self))) (column_names (h' ! results b)) =
      column_names (h ! results self)"
    by auto
  moreover have "column_names (h' ! results b) = column_names (h ! results self)"
    if "set (written m) \<subseteq> set (column_names (h ! results self))"
    using that cols column_names_assign_same [of cols "h ! results self"] by simp
  ultimately show ?thesis by blast
qed

text \<open>An instance: \<open>std("x")\<close> on a table with the columns \<open>x\<close>, \<open>y\<close> returns a table with
  the columns \<open>x\<close>, \<open>y\<close>, in that order.\<close>

theorem column_order_kept_witness:
  "call (Std ''x'') flat_acc flat_heap =
     (Inr \<lparr>data = flat_data, annualization = 4, results = 2\<rparr>,
      flat_heap @ [DAList.update ''x'' [Num 0] (flat_heap ! 0),
                   DAList.update ''x'' [Num 0] (flat_heap ! 0)]) \<and>
   set (written (Std ''x'')) \<subseteq> set (column_names (flat_heap ! results flat_acc)) \<and>
   column_names (flat_heap ! results flat_acc) = [''x'', ''y''] \<and>
   column_names ((flat_heap @ [DAList.update ''x'' [Num 0] (flat_heap ! 0),
                   DAList.update ''x'' [Num 0] (flat_heap ! 0)]) ! 2) = [''x'', ''y'']"
proof -
  have c: "call (Std ''x'') flat_acc flat_heap =
     (Inr \<lparr>data = flat_data, annualization = 4, results = 2\<rparr>,
      flat_heap @ [DAList.update ''x'' [Num 0] (flat_heap ! 0),
                   DAList.update ''x'' [Num 0] (flat_heap ! 0)])"
    by (simp add: flat_std)
  have n: "column_names (flat_heap ! results flat_acc) = [''x'', ''y'']"
    by (simp add: flat_acc_def flat_names)
  from column_order_kept [OF c] c n show ?thesis
    by simp
qed

subsection \<open>Unsupported variant, repeated names, annualization, attribute access\<close>

text \<open>
  Claim C5. A call of \<open>max_drawdown\<close> with the data type \<open>prices\<close> raises the
  not-implemented error, whatever the receiver, the name and the details flag are, also on
  an input on which the computation itself would raise; it returns no accumulator, and the
  heap after the call is the heap before it: nothing was allocated and no table was written.
\<close>

theorem max_drawdown_prices:
  "max_drawdown self name details ''prices'' h =
     (Inl (NotImplementedError
            ''max_drawdown with data_type='prices' is not implemented yet.''), h)"
  by (simp add: max_drawdown_def)

lemma mean_eq:
  "mean self name h =
     (Inr \<lparr>data = data self, annualization = annualization self, results = Suc (length h)\<rparr>,
      h @ [DAList.update name
             (map (\<lambda>xs. cell_times (pd_mean xs) (real (annualization self))) (data_columns self))
             (h ! results self),
           DAList.update name
             (map (\<lambda>xs. cell_times (pd_mean xs) (real (annualization self))) (data_columns self))
             (h ! results self)])"
  by (simp add: mean_def returning_def with_column_eq with_columns_eq Let_def)


text \<open>
  Claim C7. For every accumulator and every column name, \<open>mean\<close> called twice with that
  name in a chain returns both times, and the result table of the second accumulator has
  exactly one column of that name, whose cells are the values that the second call computed.
\<close>

theorem mean_twice_one_column:
  "\<exists>b h1 c h2.
     mean self name h = (Inr b, h1) \<and> mean b name h1 = (Inr c, h2) \<and>
     count_list (column_names (h2 ! results c)) name = 1 \<and>
     DAList.lookup (h2 ! results c) name =
       Some (map (\<lambda>xs. cell_times (pd_mean xs) (real (annualization b))) (data_columns b))"
proof -
  obtain b h1 where 1: "mean self name h = (Inr b, h1)"
    by (simp add: mean_eq)
  obtain c h2 where 2: "mean b name h1 = (Inr c, h2)"
    by (simp add: mean_eq)
  from 2 have l: "DAList.lookup (h2 ! results c) name =
       Some (map (\<lambda>xs. cell_times (pd_mean xs) (real (annualization b))) (data_columns b))"
    by (auto simp: mean_eq nth_append)
  then have "name \<in> set (column_names (h2 ! results c))"
    by (simp add: column_names_iff)
  then have "count_list (column_names (h2 ! results c)) name = 1"
    by (simp add: count_list_distinct)
  with 1 2 l show ?thesis by blast
qed




text \<open>
  Claim C9, as amended. For a name that the ordinary lookup does not find on the accumulator:
  a name of the allow-list is forwarded to the result table; so is a name that starts with
  \<open>_repr_\<close> and that the result table has as an attribute; every other name raises the
  unknown-attribute error, whose message quotes the name and points at \<open>.df\<close>.
\<close>

theorem getattr_cases:
  "(name \<in> set proxy \<longrightarrow>
      getattr class_attrs self h name = Inr (TableAttribute (results self) name)) \<and>
   (name \<notin> set proxy \<and> startswith name ''_repr_'' \<and>
    hasattr class_attrs (h ! results self) name \<longrightarrow>
      getattr class_attrs self h name = Inr (TableAttribute (results self) name)) \<and>
   (name \<notin> set proxy \<and>
    \<not> (startswith name ''_repr_'' \<and> hasattr class_attrs (h ! results self) name) \<longrightarrow>
      getattr class_attrs self h name =
        Inl (AttributeError
              (quoted ''ReturnMetrics'' @ '' has no attribute '' @ quoted name @
               ''. Use `.df` for full DataFrame access.'')))"
  by (simp add: getattr_def)

text \<open>
  The claim as stated fails for \<open>_repr_html_\<close>, an attribute of the table class: it is
  not in the allow-list and not defined on the accumulator, and the access is forwarded.
\<close>

theorem getattr_repr_counterexample:
  "''_repr_html_'' \<notin> set proxy \<and>
   getattr [''_repr_html_''] flat_acc flat_heap ''_repr_html_'' =
     Inr (TableAttribute 0 ''_repr_html_'')"
  by (simp add: getattr_def proxy_def startswith_def hasattr_def flat_acc_def)

text \<open>An instance of each case: \<open>shape\<close>, \<open>_repr_html_\<close> and \<open>plot\<close>.\<close>

theorem getattr_cases_witness:
  "''shape'' \<in> set proxy \<and>
   getattr [''_repr_html_''] flat_acc flat_heap ''shape'' = Inr (TableAttribute 0 ''shape'') \<and>
   ''_repr_html_'' \<notin> set proxy \<and> startswith ''_repr_html_'' ''_repr_'' \<and>
   hasattr [''_repr_html_''] (flat_heap ! results flat_acc) ''_repr_html_'' \<and>
   getattr [''_repr_html_''] flat_acc flat_heap ''_repr_html_'' =
     Inr (TableAttribute 0 ''_repr_html_'') \<and>
   ''plot'' \<notin> set proxy \<and> \<not> startswith ''plot'' ''_repr_'' \<and>
   getattr [''_repr_html_''] flat_acc flat_heap ''plot'' =
     Inl (AttributeError
           (quoted ''ReturnMetrics'' @ '' has no attribute '' @ quoted ''plot'' @
            ''. Use `.df` for full DataFrame access.''))"
proof -
  have a: "''shape'' \<in> set proxy" by (simp add: proxy_def)
  have b: "''_repr_html_'' \<notin> set proxy \<and> startswith ''_repr_html_'' ''_repr_'' \<and>
      hasattr [''_repr_html_''] (flat_heap ! results flat_acc) ''_repr_html_''"
    by (simp add: proxy_def startswith_def hasattr_def)
  have c: "''plot'' \<notin> set proxy \<and> \<not> startswith ''plot'' ''_repr_''"
    by (simp add: proxy_def startswith_def)
  have r: "results flat_acc = 0" by (simp add: flat_acc_def)
  from getattr_cases [of "''shape''" "[''_repr_html_'']" flat_acc flat_heap]
    getattr_cases [of "''_repr_html_''" "[''_repr_html_'']" flat_acc flat_heap]
    getattr_cases [of "''plot''" "[''_repr_html_'']" flat_acc flat_heap]
    a b c r
  show ?thesis by simp
qed

subsection \<open>Rounding keeps the sign\<close>

text \<open>The equations of the two exponent searches are unfolded on demand only.\<close>

declare bin_up.simps [simp del] bin_down.simps [simp del]

lemma bin_up_le: "1 \<le> x \<Longrightarrow> 2 powi (bin_up x) \<le> x"
proof (induction x rule: bin_up.induct)
  case (1 x)
  show ?case
  proof (cases "2 \<le> x")
    case True
    then have "2 powi (bin_up (x / 2)) \<le> x / 2" using 1 by simp
    moreover have "bin_up x = bin_up (x / 2) + 1"
      using True by (subst bin_up.simps) simp
    ultimately show ?thesis by (simp add: power_int_add_1)
  next
    case False
    then have "bin_up x = 0" by (subst bin_up.simps) simp
    with 1 show ?thesis by simp
  qed
qed

lemma bin_down_le: "0 < x \<Longrightarrow> x < 1 \<Longrightarrow> 2 powi (bin_down x) \<le> x"
proof (induction x rule: bin_down.induct)
  case (1 x)
  have s: "bin_down x = bin_down (x * 2) - 1"
    using 1 by (subst bin_down.simps) simp
  show ?case
  proof (cases "x * 2 < 1")
    case True
    then have "2 powi (bin_down (x * 2)) \<le> x * 2" using 1 by simp
    then show ?thesis by (simp add: s power_int_diff)
  next
    case False
    then have "bin_down (x * 2) = 0" by (subst bin_down.simps) simp
    with False show ?thesis by (simp add: s)
  qed
qed

lemma binade_le: "0 < x \<Longrightarrow> 2 powi (binade x) \<le> x"
  by (cases "1 \<le> x") (simp_all add: binade_def bin_up_le bin_down_le)

lemma round_even_pos: "1 \<le> y \<Longrightarrow> 1 \<le> round_even y"
proof -
  assume "1 \<le> y"
  then have "1 \<le> \<lfloor>y\<rfloor>" by (simp add: le_floor_iff)
  then show ?thesis by (auto simp: round_even_def Let_def)
qed

lemma round_even_neg: "y \<le> - 1 \<Longrightarrow> round_even y \<le> - 1"
proof -
  assume a: "y \<le> - 1"
  show ?thesis
  proof (cases "y = - 1")
    case True
    have "\<lfloor>- 1 :: real\<rfloor> = - 1" using floor_of_int [of "- 1", where ?'a = real] by simp
    with True show ?thesis by (simp add: round_even_def)
  next
    case False
    with a have "y < - 1" by simp
    then have "\<lfloor>y\<rfloor> < - 1" by (simp add: floor_less_iff)
    then show ?thesis by (auto simp: round_even_def Let_def)
  qed
qed

lemma scaled_ge: "0 < x \<Longrightarrow> 1 \<le> x / 2 powi (binade x - 52)"
proof -
  assume x: "0 < x"
  have "(2::real) powi (binade x - 52) \<le> 2 powi (binade x)"
    by (rule power_int_increasing) simp_all
  also have "\<dots> \<le> x" using x by (rule binade_le)
  finally show ?thesis by (simp add: pos_le_divide_eq)
qed

lemma f64_zero [simp]: "f64 0 = 0"
  by (simp add: f64_def)

lemma f64_pos: "0 < x \<Longrightarrow> 0 < f64 x"
proof -
  assume x: "0 < x"
  then have "1 \<le> round_even (x / 2 powi (binade x - 52))"
    by (intro round_even_pos scaled_ge)
  then have "0 < real_of_int (round_even (x / 2 powi (binade x - 52)))" by simp
  with x show ?thesis by (simp add: f64_def Let_def)
qed

lemma f64_neg: "x < 0 \<Longrightarrow> f64 x < 0"
proof -
  assume x: "x < 0"
  then have "1 \<le> (- x) / 2 powi (binade (- x) - 52)"
    by (intro scaled_ge) simp
  then have "x / 2 powi (binade (- x) - 52) \<le> - 1" by simp
  then have "round_even (x / 2 powi (binade (- x) - 52)) \<le> - 1"
    by (rule round_even_neg)
  then have "real_of_int (round_even (x / 2 powi (binade (- x) - 52))) < 0" by simp
  with x show ?thesis
    by (simp add: f64_def Let_def mult_neg_pos)
qed

lemma f64_eq_0_iff [simp]: "f64 x = 0 \<longleftrightarrow> x = 0"
proof
  assume z: "f64 x = 0"
  show "x = 0"
  proof (rule ccontr)
    assume "x \<noteq> 0"
    then consider "0 < x" | "x < 0" by linarith
    then show False
      using f64_pos [of x] f64_neg [of x] z by cases simp_all
  qed
qed simp


subsection \<open>Wealth, running peak and drawdown of one column\<close>

lemma length_cumprod_from [simp]: "length (cumprod_from a xs) = length xs"
  by (induction xs arbitrary: a) simp_all

lemma length_cummax_from [simp]: "length (cummax_from m xs) = length xs"
  by (induction xs arbitrary: m) simp_all

lemma length_cummax [simp]: "length (cummax xs) = length xs"
  by (cases xs) simp_all

lemma length_cumprod [simp]: "length (cumprod xs) = length xs"
  by (cases xs) simp_all

lemma length_cumulative [simp]: "length (cumulative rs) = length rs"
  by (simp add: cumulative_def)

lemma length_peak [simp]: "length (peak rs) = length rs"
  by (simp add: peak_def)

lemma length_drawdown [simp]: "length (drawdown rs) = length rs"
  by (simp add: drawdown_def)

lemma cumprod_from_zero: "i < length xs \<Longrightarrow> cumprod_from 0 xs ! i = 0"
proof (induction xs arbitrary: i)
  case Nil
  then show ?case by simp
next
  case (Cons x xs)
  then show ?case by (cases i) simp_all
qed

lemma cummax_from_nth:
  "i < length xs \<Longrightarrow> cummax_from m xs ! i = max m (Max (set (take (Suc i) xs)))"
proof (induction xs arbitrary: m i)
  case Nil
  then show ?case by simp
next
  case (Cons x xs)
  show ?case
  proof (cases i)
    case 0
    then show ?thesis by simp
  next
    case (Suc j)
    with Cons.prems have j: "j < length xs" by simp
    then have ne: "set (take (Suc j) xs) \<noteq> {}" by (cases xs) auto
    from Cons.IH [OF j, of "max m x"] Suc ne show ?thesis
      by (simp add: max.assoc)
  qed
qed

lemma cummax_nth: "i < length xs \<Longrightarrow> cummax xs ! i = Max (set (take (Suc i) xs))"
proof (cases xs)
  case Nil
  then show "i < length xs \<Longrightarrow> ?thesis" by simp
next
  case (Cons x ys)
  assume i: "i < length xs"
  show ?thesis
  proof (cases i)
    case 0
    with Cons show ?thesis by simp
  next
    case (Suc j)
    with i Cons have j: "j < length ys" by simp
    then have ne: "set (take (Suc j) ys) \<noteq> {}" by (cases ys) auto
    from cummax_from_nth [OF j, of x] Cons Suc ne show ?thesis by simp
  qed
qed

lemma peak_nth: "i < length rs \<Longrightarrow> peak rs ! i = Max (set (take (Suc i) (cumulative rs)))"
  by (simp add: peak_def cummax_nth)

lemma nth_in_take: "j \<le> i \<Longrightarrow> j < length xs \<Longrightarrow> xs ! j \<in> set (take (Suc i) xs)"
proof -
  assume a: "j \<le> i" "j < length xs"
  then have "j < length (take (Suc i) xs)" by simp
  then have "take (Suc i) xs ! j \<in> set (take (Suc i) xs)" by (rule nth_mem)
  with a show ?thesis by simp
qed

lemma in_take_nth: "x \<in> set (take n xs) \<Longrightarrow> \<exists>j<n. j < length xs \<and> xs ! j = x"
proof -
  assume "x \<in> set (take n xs)"
  then obtain j where "j < length (take n xs)" "take n xs ! j = x"
    by (auto simp: in_set_conv_nth)
  then show ?thesis by (intro exI [of _ j]) simp
qed

lemma cumulative_le_peak:
  "j \<le> i \<Longrightarrow> i < length rs \<Longrightarrow> cumulative rs ! j \<le> peak rs ! i"
  by (simp add: peak_nth nth_in_take)

lemma peak_attained:
  "i < length rs \<Longrightarrow> \<exists>j\<le>i. cumulative rs ! j = peak rs ! i"
proof -
  assume i: "i < length rs"
  then have "set (take (Suc i) (cumulative rs)) \<noteq> {}"
    using length_cumulative [of rs] by (cases "cumulative rs") auto
  then have "Max (set (take (Suc i) (cumulative rs))) \<in> set (take (Suc i) (cumulative rs))"
    by (intro Max_in) simp_all
  from in_take_nth [OF this] i show ?thesis
    by (auto simp: peak_nth less_Suc_eq_le)
qed

lemma peak_mono: "i \<le> k \<Longrightarrow> k < length rs \<Longrightarrow> peak rs ! i \<le> peak rs ! k"
proof -
  assume a: "i \<le> k" "k < length rs"
  then obtain j where "j \<le> i" "cumulative rs ! j = peak rs ! i"
    using peak_attained [of i rs] by auto
  with a cumulative_le_peak [of j k rs] show ?thesis by simp
qed

lemma peak_Suc:
  "Suc i < length rs \<Longrightarrow> peak rs ! Suc i = max (peak rs ! i) (cumulative rs ! Suc i)"
proof -
  assume a: "Suc i < length rs"
  then have "take (Suc (Suc i)) (cumulative rs) =
      take (Suc i) (cumulative rs) @ [cumulative rs ! Suc i]"
    by (simp add: take_Suc_conv_app_nth)
  moreover from a have "set (take (Suc i) (cumulative rs)) \<noteq> {}"
    using length_cumulative [of rs] by (cases "cumulative rs") auto
  ultimately show ?thesis using a
    by (simp add: peak_nth Max_insert max.commute)
qed

lemma cumulative_zero:
  assumes "i < length rs" and "cumulative rs ! 0 = 0"
  shows "cumulative rs ! i = 0"
proof -
  from assms have "rs \<noteq> []" by auto
  then obtain r rest where rs: "rs = r # rest" by (cases rs) auto
  with assms(2) have z: "f64 (1 + r) = 0" by (simp add: cumulative_def)
  show ?thesis
  proof (cases i)
    case 0
    with assms(2) show ?thesis by simp
  next
    case (Suc j)
    with assms(1) rs have "j < length (map (\<lambda>r. f64 (1 + r)) rest)" by simp
    from cumprod_from_zero [OF this] rs Suc z show ?thesis
      by (simp add: cumulative_def)
  qed
qed

lemma cumulative_first: "rs \<noteq> [] \<Longrightarrow> cumulative rs ! 0 = f64 (1 + hd rs)"
  by (cases rs) (simp_all add: cumulative_def)

lemma drawdown_nth:
  "i < length rs \<Longrightarrow>
   drawdown rs ! i =
     round_cell (float_divide (f64 (cumulative rs ! i - peak rs ! i)) (peak rs ! i))"
  by (simp add: drawdown_def)

subsection \<open>The order of cells and the index reductions\<close>

lemma is_float_divide [simp]: "is_float (float_divide x y)"
  by (simp add: float_divide_def)

lemma is_float_round_cell [simp]: "is_float (round_cell c) = is_float c"
  by (cases c) simp_all

lemma drawdown_is_float: "c \<in> set (drawdown rs) \<Longrightarrow> is_float c"
  by (auto simp: drawdown_def set_zip)

lemma cell_le_refl: "c \<noteq> NA \<Longrightarrow> is_float c \<Longrightarrow> cell_le c c"
  by (cases c) simp_all

lemma cell_le_total:
  "a \<noteq> NA \<Longrightarrow> b \<noteq> NA \<Longrightarrow> is_float a \<Longrightarrow> is_float b \<Longrightarrow> cell_le a b \<or> cell_le b a"
  by (cases a; cases b) auto

lemma cell_le_trans: "cell_le a b \<Longrightarrow> cell_le b c \<Longrightarrow> cell_le a c"
  by (cases a; cases b; cases c) auto

lemma cell_le_not_NA: "cell_le a b \<Longrightarrow> a \<noteq> NA \<and> b \<noteq> NA"
  by (cases a; cases b) auto

lemma idxmin_None: "idxmin cs = None \<longleftrightarrow> (\<forall>c\<in>set cs. c = NA)"
  by (induction cs) (auto split: option.splits)

lemma idxmin_Some:
  assumes "idxmin cs = Some t" and "\<And>c. c \<in> set cs \<Longrightarrow> is_float c"
  shows "t < length cs \<and> cs ! t \<noteq> NA \<and>
         (\<forall>j<length cs. cs ! j \<noteq> NA \<longrightarrow> cell_le (cs ! t) (cs ! j)) \<and>
         (\<forall>j<t. cs ! j \<noteq> NA \<longrightarrow> \<not> cell_le (cs ! j) (cs ! t))"
  using assms
proof (induction cs arbitrary: t)
  case Nil
  then show ?case by simp
next
  case (Cons c cs)
  have nd: "\<And>c'. c' \<in> set cs \<Longrightarrow> is_float c'" "is_float c"
    using Cons.prems(2) by auto
  show ?case
  proof (cases "idxmin cs")
    case None
    then have allna: "\<forall>c'\<in>set cs. c' = NA" by (simp add: idxmin_None)
    from None Cons.prems(1) have c: "c \<noteq> NA" "t = 0" by (auto split: if_splits)
    from allna have "\<forall>j<length cs. cs ! j = NA" by simp
    with c nd(2) show ?thesis
      by (auto simp: nth_Cons cell_le_refl split: nat.splits)
  next
    case (Some j)
    from Cons.IH [OF Some nd(1)] have
      ih: "j < length cs" "cs ! j \<noteq> NA"
        "\<forall>i<length cs. cs ! i \<noteq> NA \<longrightarrow> cell_le (cs ! j) (cs ! i)"
        "\<forall>i<j. cs ! i \<noteq> NA \<longrightarrow> \<not> cell_le (cs ! i) (cs ! j)"
      by auto
    have ndj: "is_float (cs ! j)" using nd(1) ih(1) by auto
    show ?thesis
    proof (cases "c \<noteq> NA \<and> cell_le c (cs ! j)")
      case True
      with Some Cons.prems(1) have t: "t = 0" by simp
      have "cell_le c (cs ! i)" if "i < length cs" "cs ! i \<noteq> NA" for i
        using that ih(3) True cell_le_trans by blast
      with t True nd(2) show ?thesis
        by (auto simp: nth_Cons cell_le_refl split: nat.splits)
    next
      case False
      with Some Cons.prems(1) have t: "t = Suc j" by auto
      have "cell_le (cs ! j) c" if "c \<noteq> NA"
        using that False cell_le_total [of c "cs ! j"] ih(2) nd(2) ndj by auto
      moreover have "\<not> cell_le c (cs ! j)" if "c \<noteq> NA"
        using that False by simp
      ultimately show ?thesis using t ih
        by (auto simp: nth_Cons less_Suc_eq_0_disj split: nat.splits)
    qed
  qed
qed

lemma idxmax_None: "idxmax xs = None \<longleftrightarrow> xs = []"
  by (induction xs) (auto split: option.splits)

lemma idxmax_Some:
  "idxmax xs = Some p \<Longrightarrow>
   p < length xs \<and> (\<forall>j<length xs. xs ! j \<le> xs ! p) \<and> (\<forall>j<p. xs ! j < xs ! p)"
proof (induction xs arbitrary: p)
  case Nil
  then show ?case by simp
next
  case (Cons x xs)
  show ?case
  proof (cases "idxmax xs")
    case None
    then have "xs = []" by (simp add: idxmax_None)
    with None Cons.prems show ?thesis by simp
  next
    case (Some j)
    from Cons.IH [OF Some] have
      ih: "j < length xs" "\<forall>i<length xs. xs ! i \<le> xs ! j" "\<forall>i<j. xs ! i < xs ! j"
      by auto
    show ?thesis
    proof (cases "xs ! j \<le> x")
      case True
      with Some Cons.prems have "p = 0" by simp
      moreover have "xs ! i \<le> x" if "i < length xs" for i
        using that ih(2) True by force
      ultimately show ?thesis by (auto simp: nth_Cons split: nat.splits)
    next
      case False
      with Some Cons.prems have "p = Suc j" by simp
      with False ih show ?thesis
        by (auto simp: nth_Cons less_Suc_eq_0_disj split: nat.splits)
    qed
  qed
qed


lemma pd_min_NA: "pd_min cs = NA \<longleftrightarrow> (\<forall>c\<in>set cs. c = NA)"
  by (induction cs) (auto simp: Let_def dest: cell_le_not_NA)


subsection \<open>The sign of the drawdown, and what \<open>max_drawdown\<close> writes\<close>

lemma drawdown_first:
  assumes "rs \<noteq> []" and "hd rs \<noteq> - 1"
  shows "drawdown rs ! 0 = Num 0"
proof -
  from assms obtain r rest where rs: "rs = r # rest" by (cases rs) auto
  with assms(2) have "1 + r \<noteq> 0" by auto
  with rs show ?thesis
    by (simp add: drawdown_def cumulative_def peak_def float_divide_def)
qed




lemma details_dict [simp]:
  "AList.update (name @ ''_recovery_date'') r
      (AList.update (name @ ''_trough_date'') t
        (AList.update (name @ ''_peak_date'') p [(name, m)])) =
   [(name, m), (name @ ''_peak_date'', p), (name @ ''_trough_date'', t),
    (name @ ''_recovery_date'', r)]"
  by simp


lemma max_drawdown_dates:
  assumes "max_drawdown self name True data_type h = (Inr b, h')"
  shows "\<exists>ps ts rcs.
           dates_loop (time_index (data self)) (data_columns self) = Inr (ps, ts, rcs) \<and>
           DAList.lookup (h' ! results b) (name @ ''_peak_date'') = Some ps \<and>
           DAList.lookup (h' ! results b) (name @ ''_trough_date'') = Some ts \<and>
           DAList.lookup (h' ! results b) (name @ ''_recovery_date'') = Some rcs"
  using assms
  by (auto simp: max_drawdown_def Let_def returning_def with_columns_eq nth_append
      DAList.lookup_update split: if_splits sum.splits prod.splits)

lemma dates_loop_nth:
  assumes "dates_loop kind cols = Inr (ps, ts, rcs)" and "i < length cols"
  shows "\<exists>p t r. drawdown_dates kind (cols ! i) = Inr (p, t, r) \<and>
           ps ! i = Date p \<and> ts ! i = Date t \<and> rcs ! i = recovery_cell r"
  using assms
proof (induction cols arbitrary: ps ts rcs i)
  case Nil
  then show ?case by simp
next
  case (Cons rs cols)
  from Cons.prems(1) obtain p t r ps' ts' rcs' where
    s: "drawdown_dates kind rs = Inr (p, t, r)"
       "dates_loop kind cols = Inr (ps', ts', rcs')"
       "ps = Date p # ps'" "ts = Date t # ts'" "rcs = recovery_cell r # rcs'"
    by (auto split: sum.splits prod.splits)
  show ?case
  proof (cases i)
    case 0
    with s show ?thesis by simp
  next
    case (Suc j)
    with Cons.prems(2) have "j < length cols" by simp
    from Cons.IH [OF s(2) this] Suc s show ?thesis by simp
  qed
qed

subsection \<open>The dates of the maximum drawdown\<close>

lemma trough_below_peak:
  assumes t: "idxmin (drawdown rs) = Some (Suc k)"
  shows "cumulative rs ! Suc k \<le> peak rs ! k"
proof (rule ccontr)
  assume "\<not> cumulative rs ! Suc k \<le> peak rs ! k"
  then have gt: "peak rs ! k < cumulative rs ! Suc k" by simp
  from idxmin_Some [OF t drawdown_is_float] have
    m: "Suc k < length rs" "drawdown rs ! Suc k \<noteq> NA"
       "\<forall>j<Suc k. drawdown rs ! j \<noteq> NA \<longrightarrow> \<not> cell_le (drawdown rs ! j) (drawdown rs ! Suc k)"
    by auto
  from gt m(1) have pk: "peak rs ! Suc k = cumulative rs ! Suc k"
    by (simp add: peak_Suc)
  with m(1,2) have nz: "cumulative rs ! Suc k \<noteq> 0" and dd: "drawdown rs ! Suc k = Num 0"
    by (auto simp: drawdown_nth float_divide_def split: if_splits)
  from m(1) have ne: "rs \<noteq> []" by auto
  have "cumulative rs ! 0 \<noteq> 0"
    using cumulative_zero [OF m(1)] nz by auto
  with ne have "hd rs \<noteq> - 1" by (auto simp: cumulative_first)
  with ne have "drawdown rs ! 0 = Num 0" by (rule drawdown_first)
  with m(3) dd show False by auto
qed

text \<open>The peak of a slice that ends at the trough, the row of the trough included or not.\<close>

lemma peak_positions:
  assumes t: "idxmin (drawdown rs) = Some t"
    and p: "idxmax (take n (cumulative rs)) = Some p" and n: "n = Suc t \<or> n = t"
  shows "p \<le> t \<and> cumulative rs ! p = peak rs ! t \<and> cumulative rs ! p = peak rs ! p \<and>
         (\<forall>j<p. cumulative rs ! j < peak rs ! t)"
proof -
  from idxmin_Some [OF t drawdown_is_float] have m: "t < length rs"
    by auto
  have q: "p \<le> t \<and> cumulative rs ! p = peak rs ! t \<and> (\<forall>j<p. cumulative rs ! j < peak rs ! t)"
  proof (cases "n = Suc t")
    case True
    with p have p': "idxmax (take (Suc t) (cumulative rs)) = Some p" by simp
    from idxmax_Some [OF p'] m have
      a: "p \<le> t" "\<forall>j\<le>t. cumulative rs ! j \<le> cumulative rs ! p"
         "\<forall>j<p. cumulative rs ! j < cumulative rs ! p"
      by (auto simp: less_Suc_eq_le)
    from peak_attained [OF m] obtain j where "j \<le> t" "cumulative rs ! j = peak rs ! t"
      by blast
    with a(2) have "peak rs ! t \<le> cumulative rs ! p" by auto
    moreover have "cumulative rs ! p \<le> peak rs ! t"
      using a(1) m by (rule cumulative_le_peak)
    ultimately show ?thesis using a by auto
  next
    case False
    with n p have p': "idxmax (take t (cumulative rs)) = Some p" by simp
    then have "take t (cumulative rs) \<noteq> []" using idxmax_None by fastforce
    then obtain k where k: "t = Suc k" by (cases t) auto
    from idxmax_Some [OF p'] m k have
      a: "p \<le> k" "\<forall>j\<le>k. cumulative rs ! j \<le> cumulative rs ! p"
         "\<forall>j<p. cumulative rs ! j < cumulative rs ! p"
      by (auto simp: less_Suc_eq_le)
    from m k have kl: "k < length rs" by simp
    from peak_attained [OF kl] obtain j where "j \<le> k" "cumulative rs ! j = peak rs ! k"
      by blast
    with a(2) have "peak rs ! k \<le> cumulative rs ! p" by auto
    moreover have "cumulative rs ! p \<le> peak rs ! k"
      using a(1) kl by (rule cumulative_le_peak)
    moreover have "peak rs ! t = peak rs ! k"
      using trough_below_peak [of rs k] t k m by (simp add: peak_Suc)
    ultimately show ?thesis using a k by auto
  qed
  then have pt: "p \<le> t" "cumulative rs ! p = peak rs ! t" by auto
  have "cumulative rs ! p \<le> peak rs ! p"
    using pt(1) m by (simp add: cumulative_le_peak)
  moreover have "peak rs ! p \<le> peak rs ! t"
    using pt(1) m by (rule peak_mono)
  ultimately have "cumulative rs ! p = peak rs ! p" using pt(2) by simp
  with q show ?thesis by blast
qed

text \<open>The default integer index: a label is its position, and so is a slice bound.\<close>

lemma label_default: "i < n \<Longrightarrow> label (default_index n) i = int i"
  by (simp add: default_index_def)

lemma slice_stop_default: "t < n \<Longrightarrow> slice_stop (default_index n) n t = t"
  by (simp add: default_index_def slice_bound_def)

lemma slice_start_default: "t < n \<Longrightarrow> slice_start (default_index n) n t = t"
  by (simp add: default_index_def slice_bound_def)

lemma drawdown_dates_positions:
  assumes d: "drawdown_dates idx rs = Inr (p', t', r')"
    and idx: "idx = LabelIndex \<or> idx = default_index (length rs)"
  shows "\<exists>p t. p' = int p \<and> t' = int t \<and>
           t < length rs \<and> drawdown rs ! t \<noteq> NA \<and>
           (\<forall>j<length rs. drawdown rs ! j \<noteq> NA \<longrightarrow>
              cell_le (drawdown rs ! t) (drawdown rs ! j)) \<and>
           (\<forall>j<t. drawdown rs ! j \<noteq> NA \<longrightarrow> \<not> cell_le (drawdown rs ! j) (drawdown rs ! t)) \<and>
           p \<le> t \<and> cumulative rs ! p = peak rs ! t \<and> cumulative rs ! p = peak rs ! p \<and>
           (\<forall>j<p. cumulative rs ! j < peak rs ! t)"
proof -
  from d obtain t p where t: "idxmin (drawdown rs) = Some t"
    and p: "idxmax (take (slice_stop idx (length rs) t) (cumulative rs)) = Some p"
    and l: "p' = label idx p" "t' = label idx t"
    by (auto simp: drawdown_dates_def split: option.splits)
  from idxmin_Some [OF t drawdown_is_float] have
    m: "t < length rs" "drawdown rs ! t \<noteq> NA"
       "\<forall>j<length rs. drawdown rs ! j \<noteq> NA \<longrightarrow> cell_le (drawdown rs ! t) (drawdown rs ! j)"
       "\<forall>j<t. drawdown rs ! j \<noteq> NA \<longrightarrow> \<not> cell_le (drawdown rs ! j) (drawdown rs ! t)"
    by auto
  from idx m(1) have n: "slice_stop idx (length rs) t = Suc t \<or> slice_stop idx (length rs) t = t"
    by (auto simp: slice_stop_default)
  from peak_positions [OF t p n] have
    q: "p \<le> t" "cumulative rs ! p = peak rs ! t" "cumulative rs ! p = peak rs ! p"
       "\<forall>j<p. cumulative rs ! j < peak rs ! t"
    by auto
  from q(1) m(1) have "p < length rs" by simp
  with idx m(1) l have "p' = int p" "t' = int t"
    by (auto simp: label_default)
  with m q show ?thesis by blast
qed

text \<open>When the call returns for a column, and when it raises.\<close>

lemma drawdown_at_zero:
  assumes "rs \<noteq> []"
  shows "drawdown rs ! 0 = Num 0 \<or> drawdown rs ! 0 = NA"
proof -
  from assms obtain r rest where rs: "rs = r # rest" by (cases rs) auto
  then show ?thesis
    by (simp add: drawdown_def cumulative_def peak_def float_divide_def)
qed

lemma trough_positive:
  assumes t: "idxmin (drawdown rs) = Some t"
    and d: "d \<in> set (drawdown rs)" "cell_le d (Num 0)" "d \<noteq> Num 0"
  shows "0 < t"
proof (rule ccontr)
  assume "\<not> 0 < t"
  then have z: "t = 0" by simp
  from idxmin_Some [OF t drawdown_is_float] z have
    m: "0 < length rs" "drawdown rs ! 0 \<noteq> NA"
       "\<forall>j<length rs. drawdown rs ! j \<noteq> NA \<longrightarrow> cell_le (drawdown rs ! 0) (drawdown rs ! j)"
    by auto
  from m(1,2) drawdown_at_zero [of rs] have f: "drawdown rs ! 0 = Num 0" by auto
  from d(1) obtain j where j: "j < length rs" "d = drawdown rs ! j"
    by (auto simp: in_set_conv_nth)
  from d(2) have "d \<noteq> NA" by (auto dest: cell_le_not_NA)
  with m(3) j f have "cell_le (Num 0) d" by auto
  with d(2,3) show False by (cases d) auto
qed

lemma label_dates_return:
  assumes "rs \<noteq> []" and "hd rs \<noteq> - 1"
  shows "\<exists>x. drawdown_dates LabelIndex rs = Inr x"
proof -
  from assms have "drawdown rs ! 0 = Num 0" by (rule drawdown_first)
  moreover from assms(1) have "drawdown rs ! 0 \<in> set (drawdown rs)" by simp
  ultimately have "\<not> (\<forall>c\<in>set (drawdown rs). c = NA)" by force
  then obtain t where t: "idxmin (drawdown rs) = Some t"
    by (auto simp: idxmin_None [symmetric])
  from idxmin_Some [OF t drawdown_is_float] have "t < length rs" by auto
  then have "length (take (Suc t) (cumulative rs)) \<noteq> 0" by simp
  then have "take (Suc t) (cumulative rs) \<noteq> []" by (simp only: length_0_conv not_False_eq_True)
  then obtain p where "idxmax (take (Suc t) (cumulative rs)) = Some p"
    by (auto simp: idxmax_None [symmetric])
  with t show ?thesis by (simp add: drawdown_dates_def)
qed

lemma default_dates_return:
  assumes d: "d \<in> set (drawdown rs)" "cell_le d (Num 0)" "d \<noteq> Num 0"
  shows "\<exists>x. drawdown_dates (default_index (length rs)) rs = Inr x"
proof -
  from d(2) have "d \<noteq> NA" by (auto dest: cell_le_not_NA)
  with d(1) have "\<not> (\<forall>c\<in>set (drawdown rs). c = NA)" by auto
  then obtain t where t: "idxmin (drawdown rs) = Some t"
    by (auto simp: idxmin_None [symmetric])
  from idxmin_Some [OF t drawdown_is_float] have l: "t < length rs" by auto
  from trough_positive [OF t d] l have "length (take t (cumulative rs)) \<noteq> 0" by simp
  then have "take t (cumulative rs) \<noteq> []" by (simp only: length_0_conv not_False_eq_True)
  then obtain p where "idxmax (take t (cumulative rs)) = Some p"
    by (auto simp: idxmax_None [symmetric])
  with t l show ?thesis by (simp add: drawdown_dates_def slice_stop_default)
qed

lemma default_dates_raise:
  assumes "idxmin (drawdown rs) = Some 0" and "rs \<noteq> []"
  shows "drawdown_dates (default_index (length rs)) rs = Inl ValueError"
  using assms by (simp add: drawdown_dates_def slice_stop_default)

lemma dates_loop_returns:
  assumes "\<And>rs. rs \<in> set cols \<Longrightarrow> \<exists>x. drawdown_dates idx rs = Inr x"
  shows "\<exists>x. dates_loop idx cols = Inr x"
  using assms
proof (induction cols)
  case Nil
  then show ?case by simp
next
  case (Cons rs cols)
  from Cons.prems [of rs] obtain x where x: "drawdown_dates idx rs = Inr x" by fastforce
  have "\<exists>y. dates_loop idx cols = Inr y"
  proof (rule Cons.IH)
    fix rs'
    assume "rs' \<in> set cols"
    then have "rs' \<in> set (rs # cols)" by simp
    then show "\<exists>x. drawdown_dates idx rs' = Inr x" by (rule Cons.prems)
  qed
  then obtain y where y: "dates_loop idx cols = Inr y" by blast
  from x y show ?case by (cases x; cases y) auto
qed

lemma max_drawdown_returns:
  assumes "data_type \<noteq> ''prices''"
    and "dates_loop (time_index (data self)) (data_columns self) = Inr x"
  shows "\<exists>b h'. max_drawdown self name True data_type h = (Inr b, h')"
  using assms
  by (cases x) (simp add: max_drawdown_def Let_def returning_def del: details_dict)

subsection \<open>The literal scenario\<close>

lemma single_asset_eq:
  "single_asset idx rs =
     (\<lparr>data = \<lparr>time_index = idx, series = [(''asset'', rs)]\<rparr>, annualization = 1,
        results = 0\<rparr>, [DAList.empty])"
  by (simp add: single_asset_def init_def)

lemma single_asset_max_drawdown:
  assumes "drawdown_dates idx rs = Inr (p, t, r)"
  shows "max_drawdown (fst (single_asset idx rs)) name True ''returns''
           (snd (single_asset idx rs)) =
         (Inr \<lparr>data = \<lparr>time_index = idx, series = [(''asset'', rs)]\<rparr>, annualization = 1,
               results = 2\<rparr>,
          [DAList.empty,
           assign [(name, [pd_min (drawdown rs)]), (name @ ''_peak_date'', [Date p]),
                   (name @ ''_trough_date'', [Date t]),
                   (name @ ''_recovery_date'', [recovery_cell r])] DAList.empty,
           assign [(name, [pd_min (drawdown rs)]), (name @ ''_peak_date'', [Date p]),
                   (name @ ''_trough_date'', [Date t]),
                   (name @ ''_recovery_date'', [recovery_cell r])] DAList.empty])"
  using assms
  by (simp add: max_drawdown_def single_asset_eq data_columns_def Let_def returning_def
      with_columns_eq numeral_2_eq_2 del: assign_Cons)

lemma single_asset_raises:
  assumes "drawdown_dates idx rs = Inl e"
  shows "max_drawdown (fst (single_asset idx rs)) name True ''returns''
           (snd (single_asset idx rs)) = (Inl e, snd (single_asset idx rs))"
  using assms
  by (simp add: max_drawdown_def single_asset_eq data_columns_def Let_def)

lemma lookup_report:
  "DAList.lookup (assign [(name, m), (name @ ''_peak_date'', p), (name @ ''_trough_date'', t),
      (name @ ''_recovery_date'', r)] DAList.empty) name = Some m"
  "DAList.lookup (assign [(name, m), (name @ ''_peak_date'', p), (name @ ''_trough_date'', t),
      (name @ ''_recovery_date'', r)] DAList.empty) (name @ ''_peak_date'') = Some p"
  "DAList.lookup (assign [(name, m), (name @ ''_peak_date'', p), (name @ ''_trough_date'', t),
      (name @ ''_recovery_date'', r)] DAList.empty) (name @ ''_trough_date'') = Some t"
  "DAList.lookup (assign [(name, m), (name @ ''_peak_date'', p), (name @ ''_trough_date'', t),
      (name @ ''_recovery_date'', r)] DAList.empty) (name @ ''_recovery_date'') = Some r"
  by (simp_all add: DAList.lookup_update)

text \<open>The float64 values of the scenario: the returns as the table holds them, the wealth
  path \<open>[1.1, 0.8800000000000001, 0.9240000000000002, 1.0164000000000002,
  1.0164000000000002]\<close>, the running peak \<open>1.1\<close> and the drawdowns, of which the least is
  \<open>-0.19999999999999996\<close>.\<close>

lemmas f64_eval = f64_def binade_def bin_up.simps bin_down.simps round_even_def Let_def

lemma scenario_floats_eq:
  "scenario_floats =
     [3602879701896397 / 36028797018963968, - (3602879701896397 / 18014398509481984),
      3602879701896397 / 72057594037927936, 3602879701896397 / 36028797018963968, 0]"
  by (simp add: scenario_floats_def scenario_returns_def f64_eval)

lemma scenario_cumulative:
  "cumulative scenario_floats =
     [2476979795053773 / 2251799813685248, 3963167672086037 / 4503599627370496,
      4161326055690339 / 4503599627370496, 4577458661259373 / 4503599627370496,
      4577458661259373 / 4503599627370496]"
  unfolding scenario_floats_eq by (simp add: cumulative_def f64_eval)

lemma scenario_peak:
  "peak scenario_floats =
     [2476979795053773 / 2251799813685248, 2476979795053773 / 2251799813685248,
      2476979795053773 / 2251799813685248, 2476979795053773 / 2251799813685248,
      2476979795053773 / 2251799813685248]"
  by (simp add: peak_def scenario_cumulative)

lemma scenario_drawdown:
  "drawdown scenario_floats =
     [Num 0, Num (- (900719925474099 / 4503599627370496)),
      Num (- (720575940379279 / 4503599627370496)),
      Num (- (1369094286720629 / 18014398509481984)),
      Num (- (1369094286720629 / 18014398509481984))]"
  by (simp add: drawdown_def scenario_cumulative scenario_peak float_divide_def f64_eval)

lemma scenario_min:
  "pd_min (drawdown scenario_floats) = Num (- (900719925474099 / 4503599627370496))"
  by (simp add: scenario_drawdown Let_def)

lemma scenario_length: "length scenario_floats = 5"
  by (simp add: scenario_floats_def scenario_returns_def)

lemma scenario_dates: "drawdown_dates (default_index 5) scenario_floats = Inr (0, 1, None)"
  by (simp add: drawdown_dates_def scenario_drawdown scenario_cumulative scenario_peak
      scenario_length default_index_def slice_bound_def upt_conv_Cons)

text \<open>
  Claim C2, as amended. On the single-asset series \<open>[0.1, -0.2, 0.05, 0.1, 0.0]\<close>, held
  as float64, over the integer index \<open>0..4\<close>, \<open>max_drawdown\<close> with details returns; the
  wealth path is \<open>[1.1, 0.8800000000000001, 0.9240000000000002, 1.0164000000000002,
  1.0164000000000002]\<close>; the result table holds the float64
  \<open>-0.19999999999999996\<close>, that is \<open>-900719925474099 / 2 ^ 52\<close>, as the maximum drawdown,
  at the distance \<open>1 / (5 * 2 ^ 52)\<close> from \<open>-0.2\<close>, the trough date 1, the peak date 0 and
  no recovery date.
\<close>

theorem scenario_max_drawdown:
  "\<exists>b h'.
     max_drawdown (fst (single_asset (default_index 5) scenario_floats)) ''max_drawdown'' True
       ''returns'' (snd (single_asset (default_index 5) scenario_floats)) = (Inr b, h') \<and>
     cumulative scenario_floats =
       [2476979795053773 / 2251799813685248, 3963167672086037 / 4503599627370496,
        4161326055690339 / 4503599627370496, 4577458661259373 / 4503599627370496,
        4577458661259373 / 4503599627370496] \<and>
     DAList.lookup (h' ! results b) ''max_drawdown'' =
       Some [Num (- (900719925474099 / 2 ^ 52))] \<and>
     \<bar>- (900719925474099 / 2 ^ 52) - (- (1 / 5))\<bar> = (1 / (5 * 2 ^ 52) :: real) \<and>
     DAList.lookup (h' ! results b) ''max_drawdown_trough_date'' = Some [Date 1] \<and>
     DAList.lookup (h' ! results b) ''max_drawdown_peak_date'' = Some [Date 0] \<and>
     DAList.lookup (h' ! results b) ''max_drawdown_recovery_date'' = Some [NA]"
  using lookup_report [of "''max_drawdown''" "[Num (- (900719925474099 / 4503599627370496))]"
      "[Date 0]" "[Date 1]" "[NA]"]
  by (simp add: single_asset_max_drawdown [OF scenario_dates] scenario_cumulative scenario_min
      del: assign_Cons)

text \<open>
  The claim as stated fails on the value and on the wealth path: the reported maximum
  drawdown is neither \<open>-0.2\<close> nor the float64 nearest to it, which is
  \<open>-3602879701896397 / 2 ^ 54\<close>, and the second wealth is not the float64 nearest to
  \<open>0.88\<close>.
\<close>

theorem scenario_value_counterexample:
  "DAList.lookup
     (snd (max_drawdown (fst (single_asset (default_index 5) scenario_floats)) ''max_drawdown''
             True ''returns'' (snd (single_asset (default_index 5) scenario_floats))) ! 2)
     ''max_drawdown'' = Some [Num (- (900719925474099 / 4503599627370496))] \<and>
   f64 (- (1 / 5)) = - (3602879701896397 / 18014398509481984) \<and>
   Num (- (900719925474099 / 4503599627370496)) \<noteq> Num (f64 (- (1 / 5))) \<and>
   Num (- (900719925474099 / 4503599627370496)) \<noteq> Num (- (1 / 5)) \<and>
   cumulative scenario_floats ! 1 = 3963167672086037 / 4503599627370496 \<and>
   f64 (22 / 25) = 7926335344172073 / 9007199254740992 \<and>
   cumulative scenario_floats ! 1 \<noteq> f64 (22 / 25)"
proof -
  have "f64 (- (1 / 5)) = - (3602879701896397 / 18014398509481984)"
    by (simp add: f64_eval)
  moreover have "f64 (22 / 25) = 7926335344172073 / 9007199254740992"
    by (simp add: f64_eval)
  ultimately show ?thesis
    using lookup_report [of "''max_drawdown''"
        "[Num (- (900719925474099 / 4503599627370496))]" "[Date 0]" "[Date 1]" "[NA]"]
    by (simp add: single_asset_max_drawdown [OF scenario_dates] scenario_cumulative scenario_min
        del: assign_Cons)
qed

text \<open>Three more columns in float64: the wealth \<open>[1.1, 1.1, 0.8800000000000001]\<close> that
  stays at its peak for a step, the wealth \<open>[1.5, 1.5]\<close> that never falls, and the wealth
  \<open>[1, 0.5, 2]\<close> that falls and recovers.\<close>

lemma tie_returns_eq:
  "tie_returns =
     [3602879701896397 / 36028797018963968, 0, - (3602879701896397 / 18014398509481984)]"
  by (simp add: tie_returns_def f64_eval)

lemma tie_cumulative:
  "cumulative tie_returns =
     [2476979795053773 / 2251799813685248, 2476979795053773 / 2251799813685248,
      3963167672086037 / 4503599627370496]"
  unfolding tie_returns_eq by (simp add: cumulative_def f64_eval)

lemma tie_peak:
  "peak tie_returns =
     [2476979795053773 / 2251799813685248, 2476979795053773 / 2251799813685248,
      2476979795053773 / 2251799813685248]"
  by (simp add: peak_def tie_cumulative)

lemma tie_drawdown:
  "drawdown tie_returns = [Num 0, Num 0, Num (- (900719925474099 / 4503599627370496))]"
  by (simp add: drawdown_def tie_cumulative tie_peak float_divide_def f64_eval)

lemma tie_length: "length tie_returns = 3"
  by (simp add: tie_returns_def)

lemma tie_dates:
  "drawdown_dates (default_index 3) tie_returns = Inr (0, 2, None)"
  "drawdown_dates LabelIndex tie_returns = Inr (0, 2, None)"
  by (simp_all add: drawdown_dates_def tie_drawdown tie_cumulative tie_peak tie_length
      default_index_def slice_bound_def upt_conv_Cons numeral_2_eq_2)

lemma rising_cumulative: "cumulative rising_returns = [3 / 2, 3 / 2]"
  by (simp add: rising_returns_def cumulative_def f64_eval)

lemma rising_drawdown: "drawdown rising_returns = [Num 0, Num 0]"
  by (simp add: drawdown_def peak_def rising_cumulative float_divide_def)

lemma rising_dates:
  "drawdown_dates (default_index 2) rising_returns = Inl ValueError"
  "drawdown_dates LabelIndex rising_returns = Inr (0, 0, Some 0)"
  by (simp_all add: drawdown_dates_def rising_drawdown rising_cumulative peak_def
      default_index_def slice_bound_def upt_conv_Cons)
     (simp_all add: rising_returns_def)

lemma rebound_cumulative: "cumulative rebound_returns = [1, 1 / 2, 2]"
  by (simp add: rebound_returns_def cumulative_def f64_eval)

lemma rebound_peak: "peak rebound_returns = [1, 1, 2]"
  by (simp add: peak_def rebound_cumulative)

lemma rebound_drawdown: "drawdown rebound_returns = [Num 0, Num (- (1 / 2)), Num 0]"
  by (simp add: drawdown_def rebound_peak rebound_cumulative float_divide_def f64_eval)

lemma rebound_length: "length rebound_returns = 3"
  by (simp add: rebound_returns_def)

lemma rebound_dates:
  "drawdown_dates (IntegerIndex [10, 20, 30]) rebound_returns = Inr (30, 20, None)"
  "drawdown_dates (default_index 3) rebound_returns = Inr (0, 1, Some 2)"
  "drawdown_dates LabelIndex rebound_returns = Inr (0, 1, Some 2)"
  by (simp_all add: drawdown_dates_def rebound_drawdown rebound_cumulative rebound_peak
      rebound_length default_index_def slice_bound_def upt_conv_Cons numeral_2_eq_2
      numeral_3_eq_3)

text \<open>
  Claim C3, as amended. Take an input table of returns whose time index is an index of
  labels (dates) and whose columns are non-empty with a first return other than \<open>-1\<close>, or
  whose time index is the default integer index \<open>0..n-1\<close> and whose columns have \<open>n\<close> rows
  and a negative drawdown each. Then \<open>max_drawdown\<close> with details returns, and for every
  column the reported trough date is the first index at which the drawdown is minimal, and
  the reported peak date is the first index, at or before the trough, at which the
  cumulative wealth equals the running peak that is current at the trough; the wealth
  equals the running peak at that index, and is smaller at every earlier index.
\<close>

theorem peak_date_first_index:
  assumes "data_type \<noteq> ''prices''"
    and "time_index (data self) = LabelIndex \<and>
           (\<forall>rs\<in>set (data_columns self). rs \<noteq> [] \<and> hd rs \<noteq> - 1) \<or>
         (\<exists>n. time_index (data self) = default_index n \<and>
            (\<forall>rs\<in>set (data_columns self). length rs = n \<and>
               (\<exists>d\<in>set (drawdown rs). cell_le d (Num 0) \<and> d \<noteq> Num 0)))"
  shows "\<exists>b h' ps ts.
           max_drawdown self name True data_type h = (Inr b, h') \<and>
           DAList.lookup (h' ! results b) (name @ ''_peak_date'') = Some ps \<and>
           DAList.lookup (h' ! results b) (name @ ''_trough_date'') = Some ts \<and>
           (\<forall>i rs. i < length (data_columns self) \<and> rs = data_columns self ! i \<longrightarrow>
              (\<exists>p t. ps ! i = Date (int p) \<and> ts ! i = Date (int t) \<and>
                 t < length rs \<and> drawdown rs ! t \<noteq> NA \<and>
                 (\<forall>j<length rs. drawdown rs ! j \<noteq> NA \<longrightarrow>
                    cell_le (drawdown rs ! t) (drawdown rs ! j)) \<and>
                 (\<forall>j<t. drawdown rs ! j \<noteq> NA \<longrightarrow>
                    \<not> cell_le (drawdown rs ! j) (drawdown rs ! t)) \<and>
                 p \<le> t \<and> cumulative rs ! p = peak rs ! t \<and> cumulative rs ! p = peak rs ! p \<and>
                 (\<forall>j<p. cumulative rs ! j < peak rs ! t)))"
proof -
  let ?idx = "time_index (data self)"
  have idx: "?idx = LabelIndex \<or> ?idx = default_index (length rs)"
    if "rs \<in> set (data_columns self)" for rs
    using assms(2) that by auto
  have ret: "\<exists>x. drawdown_dates ?idx rs = Inr x" if rs: "rs \<in> set (data_columns self)" for rs
    using assms(2)
  proof
    assume "?idx = LabelIndex \<and> (\<forall>rs\<in>set (data_columns self). rs \<noteq> [] \<and> hd rs \<noteq> - 1)"
    with rs have e: "?idx = LabelIndex" "rs \<noteq> []" "hd rs \<noteq> - 1" by auto
    show ?thesis unfolding e(1) by (rule label_dates_return [OF e(2,3)])
  next
    assume "\<exists>n. ?idx = default_index n \<and>
            (\<forall>rs\<in>set (data_columns self). length rs = n \<and>
               (\<exists>d\<in>set (drawdown rs). cell_le d (Num 0) \<and> d \<noteq> Num 0))"
    then obtain n where n: "?idx = default_index n"
      "\<forall>rs\<in>set (data_columns self). length rs = n \<and>
         (\<exists>d\<in>set (drawdown rs). cell_le d (Num 0) \<and> d \<noteq> Num 0)"
      by blast
    from n(2) rs have "length rs = n"
      and "\<exists>d\<in>set (drawdown rs). cell_le d (Num 0) \<and> d \<noteq> Num 0"
      by auto
    with n(1) obtain d where e: "?idx = default_index (length rs)"
      "d \<in> set (drawdown rs)" "cell_le d (Num 0)" "d \<noteq> Num 0"
      by auto
    show ?thesis unfolding e(1) by (rule default_dates_return [OF e(2-4)])
  qed
  then have "\<exists>x. dates_loop ?idx (data_columns self) = Inr x"
    by (rule dates_loop_returns)
  then obtain x where x: "dates_loop ?idx (data_columns self) = Inr x" by blast
  from max_drawdown_returns [OF assms(1) x] obtain b h' where
    c: "max_drawdown self name True data_type h = (Inr b, h')"
    by blast
  from max_drawdown_dates [OF c] obtain ps ts rcs where
    l: "dates_loop ?idx (data_columns self) = Inr (ps, ts, rcs)"
       "DAList.lookup (h' ! results b) (name @ ''_peak_date'') = Some ps"
       "DAList.lookup (h' ! results b) (name @ ''_trough_date'') = Some ts"
    by blast
  have "\<exists>p t. ps ! i = Date (int p) \<and> ts ! i = Date (int t) \<and>
          t < length rs \<and> drawdown rs ! t \<noteq> NA \<and>
          (\<forall>j<length rs. drawdown rs ! j \<noteq> NA \<longrightarrow> cell_le (drawdown rs ! t) (drawdown rs ! j)) \<and>
          (\<forall>j<t. drawdown rs ! j \<noteq> NA \<longrightarrow> \<not> cell_le (drawdown rs ! j) (drawdown rs ! t)) \<and>
          p \<le> t \<and> cumulative rs ! p = peak rs ! t \<and> cumulative rs ! p = peak rs ! p \<and>
          (\<forall>j<p. cumulative rs ! j < peak rs ! t)"
    if i: "i < length (data_columns self)" and rs: "rs = data_columns self ! i" for i rs
  proof -
    from i rs have m: "rs \<in> set (data_columns self)" by simp
    from dates_loop_nth [OF l(1) i] rs obtain p' t' r' where
      d: "drawdown_dates ?idx rs = Inr (p', t', r')" "ps ! i = Date p'" "ts ! i = Date t'"
      by auto
    from drawdown_dates_positions [OF d(1) idx [OF m]] d(2,3) show ?thesis
      by blast
  qed
  with c l(2,3) show ?thesis by blast
qed

text \<open>Two instances: over an index of labels the float64 returns \<open>[0.1, 0, -0.2]\<close>, with
  the trough at index 2 and the peak date 0; over the default integer index the scenario
  column, with the trough at index 1 and the peak date 0.\<close>

theorem peak_date_first_index_witness:
  "''returns'' \<noteq> ''prices'' \<and>
   time_index (data (fst (single_asset LabelIndex tie_returns))) = LabelIndex \<and>
   data_columns (fst (single_asset LabelIndex tie_returns)) = [tie_returns] \<and>
   tie_returns \<noteq> [] \<and> hd tie_returns \<noteq> - 1 \<and>
   DAList.lookup
     (snd (max_drawdown (fst (single_asset LabelIndex tie_returns)) ''dd'' True ''returns''
             (snd (single_asset LabelIndex tie_returns))) ! 2) ''dd_peak_date'' =
     Some [Date 0] \<and>
   DAList.lookup
     (snd (max_drawdown (fst (single_asset LabelIndex tie_returns)) ''dd'' True ''returns''
             (snd (single_asset LabelIndex tie_returns))) ! 2) ''dd_trough_date'' =
     Some [Date 2] \<and>
   cell_le (drawdown tie_returns ! 2) (drawdown tie_returns ! 1) \<and>
   \<not> cell_le (drawdown tie_returns ! 1) (drawdown tie_returns ! 2) \<and>
   cumulative tie_returns ! 0 = peak tie_returns ! 2 \<and>
   time_index (data (fst (single_asset (default_index 5) scenario_floats))) = default_index 5 \<and>
   data_columns (fst (single_asset (default_index 5) scenario_floats)) = [scenario_floats] \<and>
   length scenario_floats = 5 \<and>
   Num (- (900719925474099 / 4503599627370496)) \<in> set (drawdown scenario_floats) \<and>
   cell_le (Num (- (900719925474099 / 4503599627370496))) (Num 0) \<and>
   Num (- (900719925474099 / 4503599627370496)) \<noteq> Num 0 \<and>
   DAList.lookup
     (snd (max_drawdown (fst (single_asset (default_index 5) scenario_floats)) ''dd'' True
             ''returns'' (snd (single_asset (default_index 5) scenario_floats))) ! 2)
     ''dd_peak_date'' = Some [Date 0] \<and>
   DAList.lookup
     (snd (max_drawdown (fst (single_asset (default_index 5) scenario_floats)) ''dd'' True
             ''returns'' (snd (single_asset (default_index 5) scenario_floats))) ! 2)
     ''dd_trough_date'' = Some [Date 1] \<and>
   cumulative scenario_floats ! 0 = peak scenario_floats ! 1"
proof -
  let ?A = "single_asset LabelIndex tie_returns"
  let ?B = "single_asset (default_index 5) scenario_floats"
  have a: "time_index (data (fst ?A)) = LabelIndex" "data_columns (fst ?A) = [tie_returns]"
    "tie_returns \<noteq> []" "hd tie_returns \<noteq> - 1"
    by (simp_all add: single_asset_eq data_columns_def tie_returns_eq)
  have b: "time_index (data (fst ?B)) = default_index 5"
    "data_columns (fst ?B) = [scenario_floats]" "length scenario_floats = 5"
    "Num (- (900719925474099 / 4503599627370496)) \<in> set (drawdown scenario_floats)"
    "cell_le (Num (- (900719925474099 / 4503599627370496))) (Num 0)"
    "Num (- (900719925474099 / 4503599627370496)) \<noteq> Num 0"
    by (simp_all add: single_asset_eq data_columns_def scenario_length scenario_drawdown)
  have n: "''returns'' \<noteq> ''prices''" by simp
  have ca: "max_drawdown (fst ?A) ''dd'' True ''returns'' (snd ?A) =
      (Inr \<lparr>data = \<lparr>time_index = LabelIndex, series = [(''asset'', tie_returns)]\<rparr>,
            annualization = 1, results = 2\<rparr>,
       [DAList.empty,
        assign [(''dd'', [pd_min (drawdown tie_returns)]), (''dd'' @ ''_peak_date'', [Date 0]),
                (''dd'' @ ''_trough_date'', [Date 2]),
                (''dd'' @ ''_recovery_date'', [recovery_cell None])] DAList.empty,
        assign [(''dd'', [pd_min (drawdown tie_returns)]), (''dd'' @ ''_peak_date'', [Date 0]),
                (''dd'' @ ''_trough_date'', [Date 2]),
                (''dd'' @ ''_recovery_date'', [recovery_cell None])] DAList.empty])"
    by (rule single_asset_max_drawdown [OF tie_dates(2)])
  have cb: "max_drawdown (fst ?B) ''dd'' True ''returns'' (snd ?B) =
      (Inr \<lparr>data = \<lparr>time_index = default_index 5, series = [(''asset'', scenario_floats)]\<rparr>,
            annualization = 1, results = 2\<rparr>,
       [DAList.empty,
        assign [(''dd'', [pd_min (drawdown scenario_floats)]),
                (''dd'' @ ''_peak_date'', [Date 0]), (''dd'' @ ''_trough_date'', [Date 1]),
                (''dd'' @ ''_recovery_date'', [recovery_cell None])] DAList.empty,
        assign [(''dd'', [pd_min (drawdown scenario_floats)]),
                (''dd'' @ ''_peak_date'', [Date 0]), (''dd'' @ ''_trough_date'', [Date 1]),
                (''dd'' @ ''_recovery_date'', [recovery_cell None])] DAList.empty])"
    by (rule single_asset_max_drawdown [OF scenario_dates])
  have la: "DAList.lookup (snd (max_drawdown (fst ?A) ''dd'' True ''returns'' (snd ?A)) ! 2)
        ''dd_peak_date'' = Some [Date 0]"
      "DAList.lookup (snd (max_drawdown (fst ?A) ''dd'' True ''returns'' (snd ?A)) ! 2)
        ''dd_trough_date'' = Some [Date 2]"
    using lookup_report [of "''dd''" "[pd_min (drawdown tie_returns)]" "[Date 0]" "[Date 2]"
        "[recovery_cell None]"]
    by (simp_all add: ca del: assign_Cons)
  have lb: "DAList.lookup (snd (max_drawdown (fst ?B) ''dd'' True ''returns'' (snd ?B)) ! 2)
        ''dd_peak_date'' = Some [Date 0]"
      "DAList.lookup (snd (max_drawdown (fst ?B) ''dd'' True ''returns'' (snd ?B)) ! 2)
        ''dd_trough_date'' = Some [Date 1]"
    using lookup_report [of "''dd''" "[pd_min (drawdown scenario_floats)]" "[Date 0]" "[Date 1]"
        "[recovery_cell None]"]
    by (simp_all add: cb del: assign_Cons)
  have "\<exists>b h' ps ts.
      max_drawdown (fst ?A) ''dd'' True ''returns'' (snd ?A) = (Inr b, h') \<and>
      DAList.lookup (h' ! results b) (''dd'' @ ''_peak_date'') = Some ps \<and>
      DAList.lookup (h' ! results b) (''dd'' @ ''_trough_date'') = Some ts \<and>
      (\<forall>i rs. i < length (data_columns (fst ?A)) \<and> rs = data_columns (fst ?A) ! i \<longrightarrow>
         (\<exists>p t. ps ! i = Date (int p) \<and> ts ! i = Date (int t) \<and>
            t < length rs \<and> drawdown rs ! t \<noteq> NA \<and>
            (\<forall>j<length rs. drawdown rs ! j \<noteq> NA \<longrightarrow>
               cell_le (drawdown rs ! t) (drawdown rs ! j)) \<and>
            (\<forall>j<t. drawdown rs ! j \<noteq> NA \<longrightarrow>
               \<not> cell_le (drawdown rs ! j) (drawdown rs ! t)) \<and>
            p \<le> t \<and> cumulative rs ! p = peak rs ! t \<and> cumulative rs ! p = peak rs ! p \<and>
            (\<forall>j<p. cumulative rs ! j < peak rs ! t)))"
    by (rule peak_date_first_index [OF n]) (simp add: a)
  then obtain b h' ps ts p t where
    wa: "max_drawdown (fst ?A) ''dd'' True ''returns'' (snd ?A) = (Inr b, h')"
       "DAList.lookup (h' ! results b) (''dd'' @ ''_peak_date'') = Some ps"
       "DAList.lookup (h' ! results b) (''dd'' @ ''_trough_date'') = Some ts"
       "ps ! 0 = Date (int p)" "ts ! 0 = Date (int t)"
       "\<forall>j<length tie_returns. drawdown tie_returns ! j \<noteq> NA \<longrightarrow>
          cell_le (drawdown tie_returns ! t) (drawdown tie_returns ! j)"
       "\<forall>j<t. drawdown tie_returns ! j \<noteq> NA \<longrightarrow>
          \<not> cell_le (drawdown tie_returns ! j) (drawdown tie_returns ! t)"
       "cumulative tie_returns ! p = peak tie_returns ! t"
    unfolding a(2) by force
  from wa(1) have "results b = 2"
    unfolding ca by auto
  moreover from wa(1) have "h' = snd (max_drawdown (fst ?A) ''dd'' True ''returns'' (snd ?A))"
    by simp
  ultimately have "ps = [Date 0]" "ts = [Date 2]"
    using wa(2,3) la by simp_all
  with wa(4,5) have pt: "p = 0" "t = 2" by simp_all
  have na: "(1::nat) < length tie_returns" "drawdown tie_returns ! 1 \<noteq> NA"
    by (simp_all add: tie_length tie_drawdown)
  from wa(6) na pt have r1: "cell_le (drawdown tie_returns ! 2) (drawdown tie_returns ! 1)"
    by blast
  from wa(7) na pt have r2: "\<not> cell_le (drawdown tie_returns ! 1) (drawdown tie_returns ! 2)"
    by auto
  from wa(8) pt have r3: "cumulative tie_returns ! 0 = peak tie_returns ! 2"
    by simp
  have "\<exists>b h' ps ts.
      max_drawdown (fst ?B) ''dd'' True ''returns'' (snd ?B) = (Inr b, h') \<and>
      DAList.lookup (h' ! results b) (''dd'' @ ''_peak_date'') = Some ps \<and>
      DAList.lookup (h' ! results b) (''dd'' @ ''_trough_date'') = Some ts \<and>
      (\<forall>i rs. i < length (data_columns (fst ?B)) \<and> rs = data_columns (fst ?B) ! i \<longrightarrow>
         (\<exists>p t. ps ! i = Date (int p) \<and> ts ! i = Date (int t) \<and>
            t < length rs \<and> drawdown rs ! t \<noteq> NA \<and>
            (\<forall>j<length rs. drawdown rs ! j \<noteq> NA \<longrightarrow>
               cell_le (drawdown rs ! t) (drawdown rs ! j)) \<and>
            (\<forall>j<t. drawdown rs ! j \<noteq> NA \<longrightarrow>
               \<not> cell_le (drawdown rs ! j) (drawdown rs ! t)) \<and>
            p \<le> t \<and> cumulative rs ! p = peak rs ! t \<and> cumulative rs ! p = peak rs ! p \<and>
            (\<forall>j<p. cumulative rs ! j < peak rs ! t)))"
  proof (rule peak_date_first_index [OF n])
    from b(3-6) have "\<exists>d\<in>set (drawdown scenario_floats). cell_le d (Num 0) \<and> d \<noteq> Num 0"
      by blast
    with b(1-3) show "time_index (data (fst ?B)) = LabelIndex \<and>
           (\<forall>rs\<in>set (data_columns (fst ?B)). rs \<noteq> [] \<and> hd rs \<noteq> - 1) \<or>
         (\<exists>n. time_index (data (fst ?B)) = default_index n \<and>
            (\<forall>rs\<in>set (data_columns (fst ?B)). length rs = n \<and>
               (\<exists>d\<in>set (drawdown rs). cell_le d (Num 0) \<and> d \<noteq> Num 0)))"
      by (intro disjI2 exI [of _ 5]) simp
  qed
  then obtain b' h'' ps' ts' p' t' where
    wb: "max_drawdown (fst ?B) ''dd'' True ''returns'' (snd ?B) = (Inr b', h'')"
       "DAList.lookup (h'' ! results b') (''dd'' @ ''_peak_date'') = Some ps'"
       "DAList.lookup (h'' ! results b') (''dd'' @ ''_trough_date'') = Some ts'"
       "ps' ! 0 = Date (int p')" "ts' ! 0 = Date (int t')"
       "cumulative scenario_floats ! p' = peak scenario_floats ! t'"
    unfolding b(2) by force
  from wb(1) have "results b' = 2"
    unfolding cb by auto
  moreover from wb(1) have "h'' = snd (max_drawdown (fst ?B) ''dd'' True ''returns'' (snd ?B))"
    by simp
  ultimately have "ps' = [Date 0]" "ts' = [Date 1]"
    using wb(2,3) lb by simp_all
  with wb(4,5) have "p' = 0" "t' = 1" by simp_all
  with wb(6) have r4: "cumulative scenario_floats ! 0 = peak scenario_floats ! 1"
    by simp
  from n a b la lb r1 r2 r3 r4 show ?thesis by blast
qed

text \<open>
  The claim as stated fails in three ways. The last such index: on the float64 returns
  \<open>[0.1, 0, -0.2]\<close> over the index \<open>0..2\<close> the trough is at index 2, the wealth equals
  the running peak, which is also the peak current at the trough, at the indices 0 and 1,
  and the reported peak date is 0. Every column: on the returns \<open>[0.5, 0]\<close> over the index
  \<open>0..1\<close> the drawdown is never negative, the trough is the first row, the slice that ends
  at it is empty, and the call raises ValueError and reports nothing. At or before the
  trough: on the returns \<open>[0, -0.5, 3]\<close> over the integer index \<open>[10, 20, 30]\<close> the
  trough date is 20, the slice bound 20 is taken as a position beyond the three rows, and
  the reported peak date is 30.
\<close>

theorem peak_date_last_counterexample:
  "DAList.lookup
     (snd (max_drawdown (fst (single_asset (default_index 3) tie_returns)) ''dd'' True
             ''returns'' (snd (single_asset (default_index 3) tie_returns))) ! 2)
     ''dd_peak_date'' = Some [Date 0] \<and>
   DAList.lookup
     (snd (max_drawdown (fst (single_asset (default_index 3) tie_returns)) ''dd'' True
             ''returns'' (snd (single_asset (default_index 3) tie_returns))) ! 2)
     ''dd_trough_date'' = Some [Date 2] \<and>
   drawdown tie_returns = [Num 0, Num 0, Num (- (900719925474099 / 4503599627370496))] \<and>
   cumulative tie_returns ! 1 = peak tie_returns ! 1 \<and>
   cumulative tie_returns ! 1 = peak tie_returns ! 2 \<and> (0::nat) < 1 \<and> (1::nat) \<le> 2 \<and>
   drawdown rising_returns = [Num 0, Num 0] \<and>
   max_drawdown (fst (single_asset (default_index 2) rising_returns)) ''dd'' True ''returns''
     (snd (single_asset (default_index 2) rising_returns)) =
     (Inl ValueError, snd (single_asset (default_index 2) rising_returns)) \<and>
   DAList.lookup
     (snd (max_drawdown (fst (single_asset (IntegerIndex [10, 20, 30]) rebound_returns)) ''dd''
             True ''returns'' (snd (single_asset (IntegerIndex [10, 20, 30]) rebound_returns)))
        ! 2) ''dd_peak_date'' = Some [Date 30] \<and>
   DAList.lookup
     (snd (max_drawdown (fst (single_asset (IntegerIndex [10, 20, 30]) rebound_returns)) ''dd''
             True ''returns'' (snd (single_asset (IntegerIndex [10, 20, 30]) rebound_returns)))
        ! 2) ''dd_trough_date'' = Some [Date 20] \<and>
   \<not> (30::int) \<le> 20"
  using lookup_report [of "''dd''" "[pd_min (drawdown tie_returns)]" "[Date 0]" "[Date 2]"
      "[recovery_cell None]"]
    lookup_report [of "''dd''" "[pd_min (drawdown rebound_returns)]" "[Date 30]" "[Date 20]"
      "[recovery_cell None]"]
  by (simp add: single_asset_max_drawdown [OF tie_dates(1)]
      single_asset_max_drawdown [OF rebound_dates(1)] single_asset_raises [OF rising_dates(1)]
      tie_drawdown tie_cumulative tie_peak rising_drawdown del: assign_Cons)

subsection \<open>The sign of the reported drawdown\<close>




subsection \<open>Value at risk and its tail mean\<close>

lemma scenario_quantile: "pd_quantile (1 / 20) scenario_returns = Num (- (4 / 25))"
  by (simp add: pd_quantile_def scenario_returns_def Let_def)

lemma sum_list_le_bound: "(\<And>y. y \<in> set ys \<Longrightarrow> y \<le> v) \<Longrightarrow> sum_list ys \<le> real (length ys) * (v::real)"
proof (induction ys)
  case Nil
  then show ?case by simp
next
  case (Cons y ys)
  then have "y \<le> v" "sum_list ys \<le> real (length ys) * v" by auto
  then show ?case by (simp add: algebra_simps)
qed

lemma spec_tail_mean_le_quantile:
  assumes "x \<in> set xs" and "cell_le (Num x) (pd_quantile q xs)"
  shows "cell_le (spec_tail_mean q xs) (pd_quantile q xs)"
proof -
  from assms(1) have "xs \<noteq> []" by auto
  then obtain v where v: "pd_quantile q xs = Num v"
    by (simp add: pd_quantile_def Let_def)
  define ys where "ys = filter (\<lambda>x. cell_le (Num x) (pd_quantile q xs)) xs"
  from assms have "x \<in> set ys" by (simp add: ys_def)
  then have ne: "ys \<noteq> []" by auto
  have "\<And>y. y \<in> set ys \<Longrightarrow> y \<le> v" by (simp add: ys_def v)
  then have "sum_list ys \<le> real (length ys) * v" by (rule sum_list_le_bound)
  moreover from ne have "0 < real (length ys)" by simp
  ultimately have "sum_list ys / real (length ys) \<le> v"
    by (simp add: pos_divide_le_eq mult.commute)
  then have "cell_le (pd_mean ys) (Num v)"
    using ne by (simp add: pd_mean_def)
  then show ?thesis
    unfolding spec_tail_mean_def ys_def v .
qed

lemma scenario_tail_mean: "spec_tail_mean (1 / 20) scenario_returns = Num (- (1 / 5))"
  by (simp add: spec_tail_mean_def scenario_quantile)
     (simp add: scenario_returns_def pd_mean_def)


text \<open>
  Claim C6. On the scenario column and the default quantile \<open>0.05\<close> the quantile is
  \<open>-0.16\<close>, one return (\<open>-0.2\<close>) lies below it, and the tail mean in the words of the
  specification is \<open>-0.2\<close>, at most the quantile, as the claim says. \<open>VaR\<close> returns an
  accumulator; \<open>CVaR\<close> raises ValueError and computes no value: the indexer refuses the
  table of booleans. The same holds for every accumulator and quantile (\<open>CVaR_result\<close>).
\<close>

theorem CVaR_raises_on_scenario:
  "pd_quantile (1 / 20) scenario_returns = Num (- (4 / 25)) \<and>
   - (1 / 5) \<in> set scenario_returns \<and> cell_le (Num (- (1 / 5))) (Num (- (4 / 25))) \<and>
   spec_tail_mean (1 / 20) scenario_returns = Num (- (1 / 5)) \<and>
   fst (VaR (fst (single_asset (default_index 5) scenario_returns)) (1 / 20) ''VaR''
          (snd (single_asset (default_index 5) scenario_returns))) =
     Inr \<lparr>data = \<lparr>time_index = default_index 5, series = [(''asset'', scenario_returns)]\<rparr>,
          annualization = 1, results = 2\<rparr> \<and>
   CVaR (fst (single_asset (default_index 5) scenario_returns)) (1 / 20) ''CVaR''
     (snd (single_asset (default_index 5) scenario_returns)) =
     (Inl ValueError, snd (single_asset (default_index 5) scenario_returns))"
proof -
  have "CVaR (fst (single_asset (default_index 5) scenario_returns)) (1 / 20) ''CVaR''
     (snd (single_asset (default_index 5) scenario_returns)) =
     (Inl ValueError, snd (single_asset (default_index 5) scenario_returns))"
    by (simp add: CVaR_def frame_quantile_def loc_getitem_def)
  moreover have "fst (VaR (fst (single_asset (default_index 5) scenario_returns)) (1 / 20) ''VaR''
          (snd (single_asset (default_index 5) scenario_returns))) =
     Inr \<lparr>data = \<lparr>time_index = default_index 5, series = [(''asset'', scenario_returns)]\<rparr>,
          annualization = 1, results = 2\<rparr>"
    by (simp add: VaR_def frame_quantile_def returning_def with_column_eq with_columns_eq
        single_asset_eq numeral_2_eq_2)
  moreover have "- (1 / 5) \<in> set scenario_returns"
    by (simp add: scenario_returns_def)
  ultimately show ?thesis by (simp add: scenario_quantile scenario_tail_mean)
qed

end
